theory Spec2Isabelle
  imports Complex_Main "HOL-Library.Multiset" "HOL-Library.Product_Lexorder" "HOL-Library.Sublist"
begin

section \<open>Errors raised by the library\<close>

text \<open>
  Every exception the source raises is a value of this type:
  \<^item> \<open>IllegalSubtraction\<close>: the \<^verbatim>\<open>ValueError\<close> of \<^verbatim>\<open>PolytopeVolume.__sub__\<close>;
  \<^item> \<open>NotInCoverageSet\<close>: the \<^verbatim>\<open>ValueError\<close> of
    \<^verbatim>\<open>scipy_unordered_decomposition_hops\<close> ("not contained in coverage set");
  \<^item> \<open>NoBacksolution\<close>: raised at the end of \<^verbatim>\<open>single_unordered_decomposition_hop\<close>;
  \<^item> \<open>IndexError\<close>: Python's error for a list subscript out of range.
\<close>

datatype error = IllegalSubtraction | NotInCoverageSet | NoBacksolution | IndexError

definition bindE :: "error + 'a \<Rightarrow> ('a \<Rightarrow> error + 'b) \<Rightarrow> error + 'b" where
  "bindE m f = (case m of Inl e \<Rightarrow> Inl e | Inr x \<Rightarrow> f x)"

section \<open>polytopes.py: PolytopeVolume\<close>

text \<open>
  \<^verbatim>\<open>@dataclass(order=True) class PolytopeVolume: dimension: int; volume: Fraction\<close>.
  Python's \<^verbatim>\<open>int\<close> is \<open>int\<close>, a \<^verbatim>\<open>Fraction\<close> is \<open>rat\<close>.
\<close>

record PolytopeVolume =
  dimension :: int
  volume :: rat

text \<open>\<^verbatim>\<open>__add__\<close>: the operand of larger dimension wins; equal dimensions add.\<close>

definition pv_add :: "PolytopeVolume \<Rightarrow> PolytopeVolume \<Rightarrow> PolytopeVolume" where
  "pv_add a b =
     (if dimension a > dimension b then a
      else if dimension a < dimension b then b
      else \<lparr>dimension = dimension a, volume = volume a + volume b\<rparr>)"

text \<open>\<^verbatim>\<open>__sub__\<close>: raises \<^verbatim>\<open>ValueError\<close> in the last branch.\<close>

definition pv_sub :: "PolytopeVolume \<Rightarrow> PolytopeVolume \<Rightarrow> error + PolytopeVolume" where
  "pv_sub a b =
     (if dimension a > dimension b then Inr a
      else if dimension a = dimension b then
        Inr \<lparr>dimension = dimension a, volume = volume a - volume b\<rparr>
      else Inl IllegalSubtraction)"

text \<open>
  The order generated by \<^verbatim>\<open>order=True\<close> compares the tuples
  \<^verbatim>\<open>(dimension, volume)\<close> lexicographically; \<open>pv_key\<close> is that tuple.
\<close>

definition pv_key :: "PolytopeVolume \<Rightarrow> int \<times> rat" where
  "pv_key v = (dimension v, volume v)"

section \<open>The geometry backend\<close>

text \<open>
  \<^verbatim>\<open>monodromy.backend\<close> is not among the sources, so the operations the code
  calls on it are parameters of the model. \<open>None\<close> is the exception
  \<^verbatim>\<open>NoFeasibleSolutions\<close>, the only backend exception the code handles; a backend
  call is a function of the constraints it is given.
\<close>

record ConvexPolytope =
  inequalities :: "rat list list"
  equalities :: "rat list list"

record backend =
  backend_volume :: "ConvexPolytope \<Rightarrow> PolytopeVolume option"
  backend_vertices :: "ConvexPolytope \<Rightarrow> rat list list option"
  backend_reduce :: "ConvexPolytope \<Rightarrow> ConvexPolytope option"

section \<open>polytopes.py: ConvexPolytope\<close>

text \<open>
  \<^verbatim>\<open>ConvexPolytope.volume\<close> and \<^verbatim>\<open>ConvexPolytope.vertices\<close> catch
  \<^verbatim>\<open>NoFeasibleSolutions\<close>. Both are memoized in the source; no code path changes the
  constraint lists of an existing \<^verbatim>\<open>ConvexPolytope\<close>, so the cached value is always the
  value computed here and the cell is left out of the model.
\<close>

definition ConvexPolytope_volume :: "backend \<Rightarrow> ConvexPolytope \<Rightarrow> PolytopeVolume" where
  "ConvexPolytope_volume be c =
     (case backend_volume be c of
        Some v \<Rightarrow> v
      | None \<Rightarrow> \<lparr>dimension = 0, volume = 0\<rparr>)"

definition ConvexPolytope_vertices :: "backend \<Rightarrow> ConvexPolytope \<Rightarrow> rat list list" where
  "ConvexPolytope_vertices be c =
     (case backend_vertices be c of
        Some vs \<Rightarrow> vs
      | None \<Rightarrow> [])"

definition ConvexPolytope_intersect :: "ConvexPolytope \<Rightarrow> ConvexPolytope \<Rightarrow> ConvexPolytope" where
  "ConvexPolytope_intersect self other =
     \<lparr>inequalities = inequalities self @ inequalities other,
      equalities = equalities self @ equalities other\<rparr>"

section \<open>polytopes.py: Polytope and its memo cells\<close>

text \<open>
  \<^verbatim>\<open>PolytopeData\<close> (of \<^verbatim>\<open>monodromy.io.base\<close>, used by paths.py) is the bare list of
  convex components; \<^verbatim>\<open>Polytope\<close> has the same field and, once a memoized property
  has been read, the instance attributes holding the cached values. The cells are
  \<open>memo_volume\<close> and \<open>memo_vertices\<close>; \<open>None\<close> is an attribute that is not set.
\<close>

record PolytopeData =
  convex_subpolytopes :: "ConvexPolytope list"

record Polytope = PolytopeData +
  memo_volume :: "PolytopeVolume option"
  memo_vertices :: "rat list list list option"

text \<open>The constructor \<^verbatim>\<open>Polytope(convex_subpolytopes=cs)\<close>: no cell is set.\<close>

definition new_Polytope :: "ConvexPolytope list \<Rightarrow> Polytope" where
  "new_Polytope cs = \<lparr>convex_subpolytopes = cs, memo_volume = None, memo_vertices = None\<rparr>"

text \<open>
  Modelled from the spec: \<^verbatim>\<open>memoized_property\<close> of \<^verbatim>\<open>monodromy.utilities\<close>, which
  is not among the sources. The spec describes an explicit memo cell per instance,
  computed on first read. A read returns the value together with the instance as the
  read leaves it; a body that raises leaves the cell unset.
\<close>

definition memoized_property ::
  "('o \<Rightarrow> 'v option) \<Rightarrow> ('v \<Rightarrow> 'o \<Rightarrow> 'o) \<Rightarrow> ('o \<Rightarrow> error + 'v) \<Rightarrow> 'o \<Rightarrow> error + ('v \<times> 'o)" where
  "memoized_property cell store fget self =
     (case cell self of
        Some v \<Rightarrow> Inr (v, self)
      | None \<Rightarrow> bindE (fget self) (\<lambda>v. Inr (v, store v self)))"

text \<open>
  Modelled from the spec: \<^verbatim>\<open>clear_memoization\<close> of \<^verbatim>\<open>monodromy.utilities\<close>, which
  is not among the sources: it resets the memo cells of the instance it is given.
\<close>

definition clear_memoization :: "Polytope \<Rightarrow> Polytope" where
  "clear_memoization obj = obj\<lparr>memo_volume := None, memo_vertices := None\<rparr>"

text \<open>
  \<^verbatim>\<open>copy(self)\<close> of Python's \<^verbatim>\<open>copy\<close> module is a shallow copy: the clone has every
  attribute of \<open>self\<close>, the cells included. For a record that is the record itself.
\<close>

definition copy :: "Polytope \<Rightarrow> Polytope" where
  "copy self = self"

text \<open>
  Modelled from the spec: \<^verbatim>\<open>bit_iteration\<close> of \<^verbatim>\<open>monodromy.utilities\<close>, which is
  not among the sources: all bitmasks over \<open>length\<close> components with exactly \<open>weight\<close>
  bits set (bit \<open>i\<close> set means component \<open>i\<close> is included), here in increasing order.
\<close>

definition bit_iteration :: "nat \<Rightarrow> nat \<Rightarrow> nat list" where
  "bit_iteration len weight =
     filter (\<lambda>b. length (filter (bit b) [0..<len]) = weight) [0..<2 ^ len]"

subsection \<open>Polytope.volume\<close>

text \<open>The intersection of the components selected by \<open>bitstring\<close>.\<close>

definition subset_intersection :: "ConvexPolytope list \<Rightarrow> nat \<Rightarrow> ConvexPolytope" where
  "subset_intersection cs bitstring =
     foldl (\<lambda>intersection (index, convex_subpolytope).
              if 0 \<noteq> and bitstring (push_bit index 1)
              then ConvexPolytope_intersect intersection convex_subpolytope
              else intersection)
       \<lparr>inequalities = [], equalities = []\<rparr> (enumerate 0 cs)"

text \<open>\<^verbatim>\<open>volume - v\<close> when \<open>d\<close> is odd, \<^verbatim>\<open>volume + v\<close> otherwise.\<close>

definition signed_accumulate :: "nat \<Rightarrow> PolytopeVolume \<Rightarrow> PolytopeVolume \<Rightarrow> error + PolytopeVolume" where
  "signed_accumulate d vol v = (if 1 = d mod 2 then pv_sub vol v else Inr (pv_add vol v))"

text \<open>
  The loop over \<^verbatim>\<open>parent_index\<close>. \<open>v\<close> is \<^verbatim>\<open>previous_volumes[bitstring]\<close>, just
  stored. A parent never computed holds \<^verbatim>\<open>None\<close>, and a \<^verbatim>\<open>PolytopeVolume\<close> is never
  equal to \<^verbatim>\<open>None\<close>. The \<^verbatim>\<open>break\<close> ends the loop after the first parent found.
\<close>

fun parent_loop ::
  "nat \<Rightarrow> nat \<Rightarrow> PolytopeVolume \<Rightarrow> PolytopeVolume option list \<Rightarrow> nat list \<Rightarrow>
   PolytopeVolume \<times> nat list \<Rightarrow> error + (PolytopeVolume \<times> nat list)" where
  "parent_loop d bitstring v previous_volumes [] (vol, skip_masks) = Inr (vol, skip_masks)"
| "parent_loop d bitstring v previous_volumes (parent_index # rest) (vol, skip_masks) =
     (let parent_string = xor bitstring (2 ^ parent_index) in
      if 0 = and (2 ^ parent_index) bitstring
      then parent_loop d bitstring v previous_volumes rest (vol, skip_masks)
      else if parent_string \<notin> set skip_masks \<and> Some v = previous_volumes ! parent_string
      then bindE (signed_accumulate d vol v) (\<lambda>vol'. Inr (vol', skip_masks @ [parent_string]))
      else parent_loop d bitstring v previous_volumes rest (vol, skip_masks))"

text \<open>
  The first inner loop at weight \<open>1 + d\<close>. A store outside the list of
  \<^verbatim>\<open>previous_volumes\<close> would raise \<^verbatim>\<open>IndexError\<close>; a parent's index is below the
  bitstring's, so the read in \<open>parent_loop\<close> is in range whenever the store is.
\<close>

fun first_pass ::
  "backend \<Rightarrow> ConvexPolytope list \<Rightarrow> int \<Rightarrow> nat \<Rightarrow> nat list \<Rightarrow>
   PolytopeVolume \<times> nat list \<times> PolytopeVolume option list \<Rightarrow>
   error + (PolytopeVolume \<times> nat list \<times> PolytopeVolume option list)" where
  "first_pass be cs top_dimension d [] state = Inr state"
| "first_pass be cs top_dimension d (bitstring # rest) (vol, skip_masks, previous_volumes) =
     (if list_ex (\<lambda>mask. and mask bitstring = mask) skip_masks
      then first_pass be cs top_dimension d rest (vol, skip_masks, previous_volumes)
      else if \<not> bitstring < length previous_volumes then Inl IndexError
      else
        let v = ConvexPolytope_volume be (subset_intersection cs bitstring);
            previous_volumes' = previous_volumes[bitstring := Some v];
            skip_masks' = (if dimension v < top_dimension then skip_masks @ [bitstring]
                           else skip_masks)
        in bindE (parent_loop d bitstring v previous_volumes' [0..<length cs] (vol, skip_masks'))
             (\<lambda>(vol', skip_masks'').
                first_pass be cs top_dimension d rest (vol', skip_masks'', previous_volumes')))"

text \<open>The second inner loop: "sum the signed volumes at this weight".\<close>

fun sum_pass ::
  "nat \<Rightarrow> nat list \<Rightarrow> PolytopeVolume option list \<Rightarrow> nat list \<Rightarrow> PolytopeVolume \<Rightarrow>
   error + PolytopeVolume" where
  "sum_pass d skip_masks previous_volumes [] vol = Inr vol"
| "sum_pass d skip_masks previous_volumes (bitstring # rest) vol =
     (if \<not> bitstring < length previous_volumes then Inl IndexError
      else case previous_volumes ! bitstring of
        None \<Rightarrow> sum_pass d skip_masks previous_volumes rest vol
      | Some v \<Rightarrow>
          if list_ex (\<lambda>mask. and bitstring mask = mask) skip_masks
          then sum_pass d skip_masks previous_volumes rest vol
          else bindE (signed_accumulate d vol v) (sum_pass d skip_masks previous_volumes rest))"

text \<open>The outer loop \<^verbatim>\<open>for d in range(len(self.convex_subpolytopes))\<close>.\<close>

fun volume_loop ::
  "backend \<Rightarrow> ConvexPolytope list \<Rightarrow> int \<Rightarrow> nat list \<Rightarrow>
   PolytopeVolume \<times> nat list \<times> PolytopeVolume option list \<Rightarrow>
   error + (PolytopeVolume \<times> nat list \<times> PolytopeVolume option list)" where
  "volume_loop be cs top_dimension [] state = Inr state"
| "volume_loop be cs top_dimension (d # ds) state =
     bindE (first_pass be cs top_dimension d (bit_iteration (length cs) (1 + d)) state)
       (\<lambda>(vol, skip_masks, previous_volumes).
          bindE (sum_pass d skip_masks previous_volumes (bit_iteration (length cs) (1 + d)) vol)
            (\<lambda>vol'. volume_loop be cs top_dimension ds (vol', skip_masks, previous_volumes)))"

text \<open>The body of the property \<^verbatim>\<open>Polytope.volume\<close>.\<close>

definition Polytope_volume_fget :: "backend \<Rightarrow> Polytope \<Rightarrow> error + PolytopeVolume" where
  "Polytope_volume_fget be self =
     (let cs = convex_subpolytopes self;
          top_dimension = foldl (\<lambda>top c. max top (dimension (ConvexPolytope_volume be c))) 0 cs
      in bindE (volume_loop be cs top_dimension [0..<length cs]
                  (\<lparr>dimension = 0, volume = 0\<rparr>, [], replicate (2 ^ length cs) None))
           (\<lambda>(vol, skip_masks, previous_volumes). Inr vol))"

text \<open>The property as the code reads it: through its memo cell.\<close>

definition Polytope_volume :: "backend \<Rightarrow> Polytope \<Rightarrow> error + (PolytopeVolume \<times> Polytope)" where
  "Polytope_volume be =
     memoized_property memo_volume (\<lambda>v self. self\<lparr>memo_volume := Some v\<rparr>)
       (Polytope_volume_fget be)"

subsection \<open>Polytope.vertices\<close>

definition Polytope_vertices_fget :: "backend \<Rightarrow> Polytope \<Rightarrow> error + rat list list list" where
  "Polytope_vertices_fget be self =
     Inr (map (ConvexPolytope_vertices be) (convex_subpolytopes self))"

definition Polytope_vertices :: "backend \<Rightarrow> Polytope \<Rightarrow> error + (rat list list list \<times> Polytope)" where
  "Polytope_vertices be =
     memoized_property memo_vertices (\<lambda>v self. self\<lparr>memo_vertices := Some v\<rparr>)
       (Polytope_vertices_fget be)"

subsection \<open>Polytope.union, Polytope.intersect\<close>

definition Polytope_union :: "Polytope \<Rightarrow> Polytope \<Rightarrow> Polytope" where
  "Polytope_union self other =
     (let clone = copy self;
          clone = clone\<lparr>convex_subpolytopes := convex_subpolytopes self @ convex_subpolytopes other\<rparr>
      in clear_memoization clone)"

definition Polytope_intersect :: "Polytope \<Rightarrow> Polytope \<Rightarrow> Polytope" where
  "Polytope_intersect self other =
     (let cs = concat (map (\<lambda>left_subpolytope.
                   map (\<lambda>right_subpolytope.
                          ConvexPolytope_intersect left_subpolytope right_subpolytope)
                     (convex_subpolytopes other))
                 (convex_subpolytopes self));
          clone = copy self;
          clone = clone\<lparr>convex_subpolytopes := cs\<rparr>
      in clear_memoization clone)"

subsection \<open>Polytope.contains\<close>

text \<open>
  The two nested loops of the vertex phase; \<open>False\<close> is the early \<^verbatim>\<open>return False\<close>,
  \<open>True\<close> is falling through to the volume comparison.
\<close>

fun subvertices_loop :: "rat list list \<Rightarrow> rat list list list \<Rightarrow> bool" where
  "subvertices_loop [] cap_vertices = True"
| "subvertices_loop (vertex # rest) cap_vertices =
     (if \<not> list_ex (\<lambda>cap_subvertices. vertex \<in> set cap_subvertices) cap_vertices then False
      else subvertices_loop rest cap_vertices)"

fun vertices_loop :: "rat list list list \<Rightarrow> rat list list list \<Rightarrow> bool" where
  "vertices_loop [] cap_vertices = True"
| "vertices_loop (little_subvertices # rest) cap_vertices =
     (if subvertices_loop little_subvertices cap_vertices then vertices_loop rest cap_vertices
      else False)"

text \<open>
  \<^verbatim>\<open>self.contains(other)\<close>. Reading \<^verbatim>\<open>other.vertices\<close> and \<^verbatim>\<open>other.volume\<close> fills
  the cells of \<open>other\<close>, so the result comes with \<open>other\<close> as the call leaves it; the
  intersection is a temporary.
\<close>

definition Polytope_contains :: "backend \<Rightarrow> Polytope \<Rightarrow> Polytope \<Rightarrow> error + (bool \<times> Polytope)" where
  "Polytope_contains be self other =
     (let intersection = Polytope_intersect other self in
      bindE (Polytope_vertices be other) (\<lambda>(little_vertices, other).
      bindE (Polytope_vertices be intersection) (\<lambda>(cap_vertices, intersection).
        if \<not> vertices_loop little_vertices cap_vertices then Inr (False, other)
        else
          bindE (Polytope_volume be other) (\<lambda>(little_volume, other).
          bindE (Polytope_volume be intersection) (\<lambda>(cap_volume, intersection).
            Inr (cap_volume = little_volume, other))))))"

subsection \<open>trim_polytope_set\<close>

text \<open>
  \<^verbatim>\<open>sorted(xs, key=..., reverse=True)\<close> calls the key once on every element, in list
  order, and then sorts; the key \<^verbatim>\<open>x.volume\<close> is a memoized read, so it fills the
  volume cell of every candidate and raises if one volume raises.
\<close>

fun read_volumes :: "backend \<Rightarrow> Polytope list \<Rightarrow> error + (PolytopeVolume \<times> Polytope) list" where
  "read_volumes be [] = Inr []"
| "read_volumes be (x # xs) =
     bindE (Polytope_volume be x) (\<lambda>keyed.
     bindE (read_volumes be xs) (\<lambda>rest. Inr (keyed # rest)))"

text \<open>
  A sort with \<^verbatim>\<open>reverse=True\<close> reverses the list, sorts it stably in ascending order
  and reverses the result.
\<close>

definition sorted_reverse :: "('a \<Rightarrow> 'k::linorder) \<Rightarrow> 'a list \<Rightarrow> 'a list" where
  "sorted_reverse key xs = rev (sort_key key (rev xs))"

text \<open>The inner loop building \<^verbatim>\<open>other_polytope\<close>.\<close>

definition others_union :: "Polytope \<Rightarrow> nat \<Rightarrow> Polytope list \<Rightarrow> Polytope" where
  "others_union fixed_polytope index trimmable_polytopes =
     foldl (\<lambda>other_polytope (subindex, polytope).
              if subindex = index then other_polytope
              else Polytope_union other_polytope polytope)
       fixed_polytope (enumerate 0 trimmable_polytopes)"

text \<open>
  The loop \<^verbatim>\<open>for index in range(len(trimmable_polytopes) - 1, -1, -1)\<close>: the range is
  fixed before the first deletion. \<^verbatim>\<open>del trimmable_polytopes[index]\<close> removes one
  position; a candidate that stays is the object \<^verbatim>\<open>contains\<close> has read.
\<close>

fun trim_loop :: "backend \<Rightarrow> Polytope \<Rightarrow> nat list \<Rightarrow> Polytope list \<Rightarrow> error + Polytope list" where
  "trim_loop be fixed_polytope [] trimmable_polytopes = Inr trimmable_polytopes"
| "trim_loop be fixed_polytope (index # rest) trimmable_polytopes =
     (if \<not> index < length trimmable_polytopes then Inl IndexError
      else
        let this_polytope = trimmable_polytopes ! index;
            other_polytope = others_union fixed_polytope index trimmable_polytopes
        in bindE (Polytope_contains be other_polytope this_polytope)
             (\<lambda>(contained, this_polytope).
                trim_loop be fixed_polytope rest
                  (if contained
                   then take index trimmable_polytopes @ drop (Suc index) trimmable_polytopes
                   else trimmable_polytopes[index := this_polytope])))"

definition trim_polytope_set ::
  "backend \<Rightarrow> Polytope list \<Rightarrow> Polytope list option \<Rightarrow> error + Polytope list" where
  "trim_polytope_set be trimmable_polytopes fixed_polytopes =
     (let fixed_polytope =
            (case fixed_polytopes of
               None \<Rightarrow> new_Polytope []
             | Some fs \<Rightarrow> foldl Polytope_union (new_Polytope []) fs)
      in bindE (read_volumes be trimmable_polytopes) (\<lambda>keyed.
           let trimmable_polytopes = map snd (sorted_reverse (\<lambda>kx. pv_key (fst kx)) keyed)
           in trim_loop be fixed_polytope (rev [0..<length trimmable_polytopes])
                trimmable_polytopes))"

subsection \<open>Polytope.reduce\<close>

text \<open>The first loop: an infeasible component is dropped.\<close>

fun independent_polytopes :: "backend \<Rightarrow> ConvexPolytope list \<Rightarrow> Polytope list" where
  "independent_polytopes be [] = []"
| "independent_polytopes be (convex_subpolytope # rest) =
     (case backend_reduce be convex_subpolytope of
        Some reduced \<Rightarrow> new_Polytope [reduced] # independent_polytopes be rest
      | None \<Rightarrow> independent_polytopes be rest)"

text \<open>\<^verbatim>\<open>[p.convex_subpolytopes[0] for p in independent_polytopes]\<close>.\<close>

fun first_components :: "Polytope list \<Rightarrow> error + ConvexPolytope list" where
  "first_components [] = Inr []"
| "first_components (p # ps) =
     (if convex_subpolytopes p = [] then Inl IndexError
      else bindE (first_components ps) (\<lambda>rest. Inr (convex_subpolytopes p ! 0 # rest)))"

text \<open>\<^verbatim>\<open>reduce\<close> returns the clone as it is after the assignment to its component list.\<close>

definition Polytope_reduce :: "backend \<Rightarrow> Polytope \<Rightarrow> error + Polytope" where
  "Polytope_reduce be self =
     bindE (trim_polytope_set be (independent_polytopes be (convex_subpolytopes self)) None)
       (\<lambda>trimmed.
          bindE (first_components trimmed) (\<lambda>cs.
            let clone = copy self;
                clone = clone\<lparr>convex_subpolytopes := cs\<rparr>
            in Inr clone))"

section \<open>An exact backend for the line\<close>

text \<open>
  A concrete backend for closed examples: polytopes in one coordinate, a constraint
  \<open>[c0, c1]\<close> meaning \<open>c0 + c1 * x \<ge> 0\<close> (or \<open>= 0\<close>). A bounded non-empty region is
  an interval \<open>[lo, hi]\<close>: of dimension 1 and volume \<open>hi - lo\<close> when \<open>lo < hi\<close>, a point
  of dimension 0 and volume 1 when \<open>lo = hi\<close>. An empty region, and one without a lower
  or an upper bound, has no vertex representation and is reported as infeasible.
\<close>

definition interval_bound :: "rat list \<Rightarrow> rat" where
  "interval_bound row = - (row ! 0) / (row ! 1)"

definition interval_of :: "ConvexPolytope \<Rightarrow> (rat \<times> rat) option" where
  "interval_of c =
     (let rows = filter (\<lambda>row. length row = 2) (inequalities c);
          eqs = filter (\<lambda>row. length row = 2) (equalities c);
          los = map interval_bound (filter (\<lambda>row. row ! 1 > 0) rows @ filter (\<lambda>row. row ! 1 \<noteq> 0) eqs);
          his = map interval_bound (filter (\<lambda>row. row ! 1 < 0) rows @ filter (\<lambda>row. row ! 1 \<noteq> 0) eqs);
          consistent = (list_all (\<lambda>row. if row ! 1 = 0 then row ! 0 \<ge> 0 else True) rows \<and>
                        list_all (\<lambda>row. if row ! 1 = 0 then row ! 0 = 0 else True) eqs)
      in if consistent \<and> los \<noteq> [] \<and> his \<noteq> [] \<and> foldr max los (hd los) \<le> foldr min his (hd his)
         then Some (foldr max los (hd los), foldr min his (hd his))
         else None)"

definition interval_backend :: backend where
  "interval_backend =
     \<lparr>backend_volume = (\<lambda>c. case interval_of c of
          None \<Rightarrow> None
        | Some (lo, hi) \<Rightarrow>
            Some (if lo < hi then \<lparr>dimension = 1, volume = hi - lo\<rparr>
                  else \<lparr>dimension = 0, volume = 1\<rparr>)),
      backend_vertices = (\<lambda>c. case interval_of c of
          None \<Rightarrow> None
        | Some (lo, hi) \<Rightarrow> Some (if lo < hi then [[lo], [hi]] else [[lo]])),
      backend_reduce = (\<lambda>c. case interval_of c of
          None \<Rightarrow> None
        | Some (lo, hi) \<Rightarrow> Some \<lparr>inequalities = [[- lo, 1], [hi, - 1]], equalities = []\<rparr>)\<rparr>"

text \<open>The interval \<open>[lo, hi]\<close> as a convex polytope, and as a polytope of one component.\<close>

definition interval :: "rat \<Rightarrow> rat \<Rightarrow> ConvexPolytope" where
  "interval lo hi = \<lparr>inequalities = [[- lo, 1], [hi, - 1]], equalities = []\<rparr>"

section \<open>What a read of a memoized property returns\<close>

text \<open>
  \<open>read_vertices\<close> and \<open>read_volume\<close> are the values \<^verbatim>\<open>p.vertices\<close> and
  \<^verbatim>\<open>p.volume\<close> evaluate to: the cell when it is set, the computed value otherwise.
  \<open>memo_coherent\<close> says that every cell that is set holds what the property would
  compute from the present component list.
\<close>

definition read_vertices :: "backend \<Rightarrow> Polytope \<Rightarrow> rat list list list" where
  "read_vertices be p =
     (case memo_vertices p of
        Some vs \<Rightarrow> vs
      | None \<Rightarrow> map (ConvexPolytope_vertices be) (convex_subpolytopes p))"

definition read_volume :: "backend \<Rightarrow> Polytope \<Rightarrow> error + PolytopeVolume" where
  "read_volume be p =
     (case memo_volume p of
        Some v \<Rightarrow> Inr v
      | None \<Rightarrow> Polytope_volume_fget be p)"

definition memo_coherent :: "backend \<Rightarrow> Polytope \<Rightarrow> bool" where
  "memo_coherent be p =
     ((case memo_vertices p of None \<Rightarrow> True
       | Some vs \<Rightarrow> vs = map (ConvexPolytope_vertices be) (convex_subpolytopes p)) \<and>
      (case memo_volume p of None \<Rightarrow> True
       | Some v \<Rightarrow> Polytope_volume_fget be p = Inr v))"

section \<open>trim_polytope_set in the spec's words\<close>

text \<open>
  The description of \<^verbatim>\<open>trim_polytope_set\<close>, for comparison with the loop of the
  source: \<open>fixed_union\<close> is the union of the context polytopes (the empty union when
  none is given); the candidates are scanned from the last to the first, and a
  candidate is dropped when the union of the context with all other candidates that
  remain (those not scanned yet, then the survivors) contains it. The second argument
  of \<open>scan_from_last\<close> holds the candidates not scanned yet, last one first.
\<close>

definition fixed_union :: "Polytope list option \<Rightarrow> Polytope" where
  "fixed_union fixed_polytopes =
     foldl Polytope_union (new_Polytope [])
       (case fixed_polytopes of None \<Rightarrow> [] | Some fs \<Rightarrow> fs)"

fun scan_from_last ::
  "backend \<Rightarrow> Polytope \<Rightarrow> Polytope list \<Rightarrow> Polytope list \<Rightarrow> error + Polytope list" where
  "scan_from_last be context [] survivors = Inr survivors"
| "scan_from_last be context (candidate # earlier) survivors =
     bindE (Polytope_contains be
              (foldl Polytope_union context (rev earlier @ survivors)) candidate)
       (\<lambda>(contained, candidate).
          scan_from_last be context earlier
            (if contained then survivors else candidate # survivors))"

text \<open>
  \<open>rejected\<close>: the containment test returns false (it neither returns true nor
  raises).
\<close>

definition rejected :: "backend \<Rightarrow> Polytope \<Rightarrow> Polytope \<Rightarrow> bool" where
  "rejected be others y =
     (case Polytope_contains be others y of Inr (b, y') \<Rightarrow> \<not> b | Inl e \<Rightarrow> False)"

section \<open>xx_decompose/paths.py\<close>

text \<open>
  \<^verbatim>\<open>CircuitPolytopeData\<close> (of \<^verbatim>\<open>monodromy.io.base\<close>): a \<^verbatim>\<open>PolytopeData\<close> with the
  sequence of operations and the cost of the circuit. Costs are finite numbers; the
  only infinite one is the initial \<^verbatim>\<open>best_cost = float("inf")\<close>, which is \<open>None\<close> in
  \<open>best_loop\<close>. \<^verbatim>\<open>ConvexPolytopeData\<close> has the two fields of \<open>ConvexPolytope\<close>.
\<close>

record 'op CircuitPolytopeData = PolytopeData +
  operations :: "'op list"
  cost :: rat

text \<open>
  \<^verbatim>\<open>xx_decompose/scipy.py\<close> is not among the sources, so the two functions the code
  imports from it are parameters. \<^verbatim>\<open>manual_get_random_vertex\<close> is randomized and may
  fail on a region that has a vertex, so two calls on the same region may differ: it
  takes the number of calls made before it. \<open>None\<close> is \<^verbatim>\<open>NoFeasibleSolutions\<close>.
\<close>

record 'op scipy =
  polyhedron_has_element :: "'op CircuitPolytopeData \<Rightarrow> rat list \<Rightarrow> bool"
  manual_get_random_vertex :: "nat \<Rightarrow> PolytopeData \<Rightarrow> rat list option"

text \<open>The dictionary \<^verbatim>\<open>single_unordered_decomposition_hop\<close> returns.\<close>

record 'op hop_result =
  hop :: "rat list \<times> 'op \<times> rat list"
  ancestor :: "rat list"
  operations_remaining :: "'op list"

text \<open>A list comprehension whose element expression may raise.\<close>

fun mapE :: "('a \<Rightarrow> error + 'b) \<Rightarrow> 'a list \<Rightarrow> error + 'b list" where
  "mapE f [] = Inr []"
| "mapE f (x # xs) = bindE (f x) (\<lambda>y. bindE (mapE f xs) (\<lambda>ys. Inr (y # ys)))"

text \<open>
  \<^verbatim>\<open>[ineq[0] + sum(x * y for x, y in zip(ineq[4:], target)), ineq[1], ineq[2], ineq[3]]\<close>:
  a subscript beyond the end of \<^verbatim>\<open>ineq\<close> raises \<^verbatim>\<open>IndexError\<close>; the slice and
  \<^verbatim>\<open>zip\<close> never raise.
\<close>

definition impose_target :: "rat list \<Rightarrow> rat list \<Rightarrow> error + rat list" where
  "impose_target target ineq =
     (if length ineq < 4 then Inl IndexError
      else Inr [ineq ! 0 + sum_list (map (\<lambda>(x, y). x * y) (zip (drop 4 ineq) target)),
                ineq ! 1, ineq ! 2, ineq ! 3])"

text \<open>The \<^verbatim>\<open>ConvexPolytopeData\<close> built for one convex component \<^verbatim>\<open>cp\<close>.\<close>

definition backsolution_component :: "rat list \<Rightarrow> ConvexPolytope \<Rightarrow> error + ConvexPolytope" where
  "backsolution_component target cp =
     bindE (mapE (impose_target target) (inequalities cp)) (\<lambda>ineqs.
     bindE (mapE (impose_target target) (equalities cp)) (\<lambda>eqs.
       Inr \<lparr>inequalities = ineqs, equalities = eqs\<rparr>))"

text \<open>
  The loop \<^verbatim>\<open>for ancestor in scipy_coverage_set\<close>. Its state is
  \<^verbatim>\<open>backsolution_polytope\<close>, created once before the loop and extended by \<^verbatim>\<open>+=\<close>
  for every ancestor whose operations match, and the number of calls made to
  \<^verbatim>\<open>manual_get_random_vertex\<close>. \<^verbatim>\<open>Counter(a) != Counter(b)\<close> compares the
  multisets. \<^verbatim>\<open>ancestor.operations[-1]\<close> raises \<^verbatim>\<open>IndexError\<close> on an empty list.
\<close>

fun hop_loop ::
  "'op scipy \<Rightarrow> rat list \<Rightarrow> 'op list \<Rightarrow> 'op CircuitPolytopeData list \<Rightarrow>
   PolytopeData \<times> nat \<Rightarrow> error + ('op hop_result \<times> nat)" where
  "hop_loop sp target working_operations [] (backsolution_polytope, calls) = Inl NoBacksolution"
| "hop_loop sp target working_operations (anc # rest) (backsolution_polytope, calls) =
     (if mset (operations anc) \<noteq> mset working_operations
      then hop_loop sp target working_operations rest (backsolution_polytope, calls)
      else
        bindE (mapE (backsolution_component target) (convex_subpolytopes anc)) (\<lambda>components.
          let backsolution_polytope = backsolution_polytope
                \<lparr>convex_subpolytopes := convex_subpolytopes backsolution_polytope @ components\<rparr>
          in case manual_get_random_vertex sp calls backsolution_polytope of
               Some solution \<Rightarrow>
                 if operations anc = [] then Inl IndexError
                 else Inr (\<lparr>hop = (solution, last (operations anc), target),
                            ancestor = solution,
                            operations_remaining = butlast (operations anc)\<rparr>, Suc calls)
             | None \<Rightarrow>
                 hop_loop sp target working_operations rest (backsolution_polytope, Suc calls)))"

definition single_unordered_decomposition_hop ::
  "'op scipy \<Rightarrow> nat \<Rightarrow> rat list \<Rightarrow> 'op list \<Rightarrow> 'op CircuitPolytopeData list \<Rightarrow>
   error + ('op hop_result \<times> nat)" where
  "single_unordered_decomposition_hop sp calls target working_operations scipy_coverage_set =
     hop_loop sp target working_operations scipy_coverage_set
       (\<lparr>convex_subpolytopes = []\<rparr>, calls)"

text \<open>The loop of \<^verbatim>\<open>scipy_unordered_decomposition_hops\<close> that selects \<^verbatim>\<open>working_polytope\<close>.\<close>

fun best_loop ::
  "'op scipy \<Rightarrow> rat list \<Rightarrow> 'op CircuitPolytopeData list \<Rightarrow>
   'op CircuitPolytopeData option \<times> rat option \<Rightarrow> 'op CircuitPolytopeData option" where
  "best_loop sp target [] (working_polytope, best_cost) = working_polytope"
| "best_loop sp target (polytope # rest) (working_polytope, best_cost) =
     (if (case best_cost of None \<Rightarrow> True | Some b \<Rightarrow> cost polytope < b) \<and>
         polyhedron_has_element sp polytope target
      then best_loop sp target rest (Some polytope, Some (cost polytope))
      else best_loop sp target rest (working_polytope, best_cost))"

text \<open>
  The loop \<^verbatim>\<open>while 0 < len(operations_remaining)\<close>; \<^verbatim>\<open>decomposition.insert(0, hop)\<close>
  puts the new triple in front. It terminates because a hop that returns leaves one
  operation fewer.
\<close>

function hops_loop ::
  "'op scipy \<Rightarrow> 'op CircuitPolytopeData list \<Rightarrow> rat list \<Rightarrow> 'op list \<Rightarrow>
   (rat list \<times> 'op \<times> rat list) list \<Rightarrow> nat \<Rightarrow>
   error + ((rat list \<times> 'op \<times> rat list) list \<times> nat)" where
  "hops_loop sp scipy_coverage_set target operations_remaining' decomposition calls =
     (if 0 < length operations_remaining' then
        case single_unordered_decomposition_hop sp calls target operations_remaining'
               scipy_coverage_set of
          Inl e \<Rightarrow> Inl e
        | Inr (r, calls') \<Rightarrow>
            hops_loop sp scipy_coverage_set (ancestor r) (operations_remaining r)
              (hop r # decomposition) calls'
      else Inr (decomposition, calls))"
  by pat_completeness auto
termination
proof (relation "measure (\<lambda>(sp, scs, target, ops, decomposition, calls). length ops)")
  show "wf (measure (\<lambda>(sp :: 'op scipy, scs :: 'op CircuitPolytopeData list, target :: rat list,
                         ops :: 'op list, decomposition :: (rat list \<times> 'op \<times> rat list) list,
                         calls :: nat). length ops))"
    by simp
next
  fix sp :: "'op scipy" and scipy_coverage_set :: "'op CircuitPolytopeData list"
    and target :: "rat list" and ops :: "'op list"
    and decomposition :: "(rat list \<times> 'op \<times> rat list) list" and calls :: nat
    and x2 :: "'op hop_result \<times> nat" and r :: "'op hop_result" and calls' :: nat
  assume nonempty: "0 < length ops"
    and call: "single_unordered_decomposition_hop sp calls target ops scipy_coverage_set = Inr x2"
    and x2: "(r, calls') = x2"
  have shorter: "Suc (length (operations_remaining res)) = length ops"
    if "hop_loop sp target ops cov st = Inr (res, n)"
    for cov st res n
    using that
  proof (induction cov arbitrary: st)
    case Nil
    then show ?case by (cases st) simp
  next
    case (Cons anc rest)
    obtain bp k where st: "st = (bp, k)" by (cases st)
    show ?case
    proof (cases "mset (operations anc) = mset ops")
      case False
      with Cons st show ?thesis by simp
    next
      case True
      then have len: "length (operations anc) = length ops"
        by (metis size_mset)
      have pos: "Suc (length ops - Suc 0) = length ops" if "operations anc \<noteq> []"
        using that len by (cases "operations anc") auto
      from Cons.prems True st Cons.IH len pos show ?thesis
        by (auto simp: bindE_def Let_def split: sum.splits option.splits if_splits)
    qed
  qed
  from call x2 shorter show
    "((sp, scipy_coverage_set, ancestor r, operations_remaining r, hop r # decomposition, calls'),
      (sp, scipy_coverage_set, target, ops, decomposition, calls))
     \<in> measure (\<lambda>(sp, scs, target, ops, decomposition, calls). length ops)"
    by (fastforce simp: single_unordered_decomposition_hop_def)
qed

definition scipy_unordered_decomposition_hops ::
  "'op scipy \<Rightarrow> nat \<Rightarrow> 'op CircuitPolytopeData list \<Rightarrow> 'op CircuitPolytopeData list \<Rightarrow>
   rat list \<Rightarrow> error + ((rat list \<times> 'op \<times> rat list) list \<times> nat)" where
  "scipy_unordered_decomposition_hops sp calls coverage_set scipy_coverage_set target =
     (case best_loop sp target coverage_set (None, None) of
        None \<Rightarrow> Inl NotInCoverageSet
      | Some working_polytope \<Rightarrow>
          hops_loop sp scipy_coverage_set target (operations working_polytope) [] calls)"

section \<open>A coverage set for closed examples\<close>

text \<open>
  A concrete instance of the two parameters: a point belongs to a polytope when it
  satisfies every constraint of one component (\<open>feasible_at\<close>), and a vertex is looked
  for among the candidate points \<open>(0, 0, 0)\<close> and \<open>(1, 0, 0)\<close>. \<open>flaky_scipy\<close> fails on
  its first call whatever the region, as the randomized search may. The example has the
  identity (cost 0), \<open>op1\<close> reaching \<open>0 \<le> x1 \<le> 1\<close> (cost 1) and \<open>op1, op2\<close> reaching
  \<open>0 \<le> x1 \<le> 2\<close> (cost 2); in the scipy coverage set the first three coordinates are
  the source and the last three the target.
\<close>

fun satisfies :: "(rat \<Rightarrow> bool) \<Rightarrow> rat list \<Rightarrow> rat list \<Rightarrow> bool" where
  "satisfies ok point [] = False"
| "satisfies ok point (c0 # cs) = ok (c0 + sum_list (map (\<lambda>(x, y). x * y) (zip cs point)))"

definition feasible_at :: "rat list \<Rightarrow> ConvexPolytope \<Rightarrow> bool" where
  "feasible_at point cp =
     (list_all (satisfies (\<lambda>v. 0 \<le> v) point) (inequalities cp) \<and>
      list_all (satisfies (\<lambda>v. v = 0) point) (equalities cp))"

definition grid_vertex :: "rat list list \<Rightarrow> PolytopeData \<Rightarrow> rat list option" where
  "grid_vertex candidates region =
     find (\<lambda>point. list_ex (feasible_at point) (convex_subpolytopes region)) candidates"

definition example_scipy :: "string scipy" where
  "example_scipy =
     \<lparr>polyhedron_has_element = (\<lambda>polytope point.
         list_ex (feasible_at point) (convex_subpolytopes polytope)),
      manual_get_random_vertex = (\<lambda>calls. grid_vertex [[0, 0, 0], [1, 0, 0]])\<rparr>"

definition flaky_scipy :: "string scipy" where
  "flaky_scipy =
     example_scipy\<lparr>manual_get_random_vertex :=
       (\<lambda>calls region. if calls = 0 then None else grid_vertex [[0, 0, 0], [1, 0, 0]] region)\<rparr>"

definition circuit_polytope ::
  "ConvexPolytope list \<Rightarrow> string list \<Rightarrow> rat \<Rightarrow> string CircuitPolytopeData" where
  "circuit_polytope cs ops c = \<lparr>convex_subpolytopes = cs, operations = ops, cost = c\<rparr>"

definition example_coverage_set :: "string CircuitPolytopeData list" where
  "example_coverage_set =
     [circuit_polytope
        [\<lparr>inequalities = [], equalities = [[0, 1, 0, 0], [0, 0, 1, 0], [0, 0, 0, 1]]\<rparr>] [] 0,
      circuit_polytope
        [\<lparr>inequalities = [[0, 1, 0, 0], [1, - 1, 0, 0]],
          equalities = [[0, 0, 1, 0], [0, 0, 0, 1]]\<rparr>] [''op1''] 1,
      circuit_polytope
        [\<lparr>inequalities = [[0, 1, 0, 0], [2, - 1, 0, 0]],
          equalities = [[0, 0, 1, 0], [0, 0, 0, 1]]\<rparr>] [''op1'', ''op2''] 2]"

definition example_scipy_coverage_set :: "string CircuitPolytopeData list" where
  "example_scipy_coverage_set =
     [circuit_polytope
        [\<lparr>inequalities = [[0, 0, 0, 0, 1, 0, 0], [1, 0, 0, 0, - 1, 0, 0]],
          equalities = [[0, 1, 0, 0, 0, 0, 0], [0, 0, 1, 0, 0, 0, 0], [0, 0, 0, 1, 0, 0, 0],
                        [0, 0, 0, 0, 0, 1, 0], [0, 0, 0, 0, 0, 0, 1]]\<rparr>] [''op1''] 1,
      circuit_polytope
        [\<lparr>inequalities = [[0, 1, 0, 0, 0, 0, 0], [1, - 1, 0, 0, 0, 0, 0],
                          [0, - 1, 0, 0, 1, 0, 0], [1, 1, 0, 0, - 1, 0, 0]],
          equalities = [[0, 0, 1, 0, 0, 0, 0], [0, 0, 0, 1, 0, 0, 0],
                        [0, 0, 0, 0, 0, 1, 0], [0, 0, 0, 0, 0, 0, 1]]\<rparr>] [''op1'', ''op2''] 2]"

section \<open>Path decomposition in the spec's words\<close>

text \<open>
  \<open>chained\<close>: each triple's target is the next triple's source.
  \<open>hop_loop_per_ancestor\<close>: the hop as the spec describes it, where the region in which
  a vertex is sought consists of the components of that ancestor alone.
  \<open>two_orders_scipy_coverage_set\<close> has two ancestors with the same operations in
  different orders, the first with source \<open>(0, 0, 0)\<close>, the second with source
  \<open>(1, 0, 0)\<close>.
\<close>

fun chained :: "(rat list \<times> 'op \<times> rat list) list \<Rightarrow> bool" where
  "chained [] = True"
| "chained [h] = True"
| "chained (h1 # h2 # hs) = (snd (snd h1) = fst h2 \<and> chained (h2 # hs))"

fun hop_loop_per_ancestor ::
  "'op scipy \<Rightarrow> rat list \<Rightarrow> 'op list \<Rightarrow> 'op CircuitPolytopeData list \<Rightarrow> nat \<Rightarrow>
   error + ('op hop_result \<times> nat)" where
  "hop_loop_per_ancestor sp target working_operations [] calls = Inl NoBacksolution"
| "hop_loop_per_ancestor sp target working_operations (anc # rest) calls =
     (if mset (operations anc) \<noteq> mset working_operations
      then hop_loop_per_ancestor sp target working_operations rest calls
      else
        bindE (mapE (backsolution_component target) (convex_subpolytopes anc)) (\<lambda>components.
          case manual_get_random_vertex sp calls \<lparr>convex_subpolytopes = components\<rparr> of
            Some solution \<Rightarrow>
              if operations anc = [] then Inl IndexError
              else Inr (\<lparr>hop = (solution, last (operations anc), target),
                         ancestor = solution,
                         operations_remaining = butlast (operations anc)\<rparr>, Suc calls)
          | None \<Rightarrow> hop_loop_per_ancestor sp target working_operations rest (Suc calls)))"

definition two_orders_scipy_coverage_set :: "string CircuitPolytopeData list" where
  "two_orders_scipy_coverage_set =
     [circuit_polytope
        [\<lparr>inequalities = [],
          equalities = [[0, 1, 0, 0, 0, 0, 0], [0, 0, 1, 0, 0, 0, 0], [0, 0, 0, 1, 0, 0, 0]]\<rparr>]
        [''a'', ''b''] 2,
      circuit_polytope
        [\<lparr>inequalities = [],
          equalities = [[- 1, 1, 0, 0, 0, 0, 0], [0, 0, 1, 0, 0, 0, 0], [0, 0, 0, 1, 0, 0, 0]]\<rparr>]
        [''b'', ''a''] 2]"

section \<open>Properties of PolytopeVolume\<close>

text \<open>
  C8. Subtraction \<open>A - B\<close> returns \<open>A\<close> unchanged when \<open>A\<close> has the larger dimension,
  the componentwise difference when the dimensions agree, and raises when \<open>A\<close> has the
  smaller dimension; in particular it returns a value exactly when
  \<open>dimension B \<le> dimension A\<close>.
\<close>

theorem pv_sub_cases:
  "(dimension a > dimension b \<longrightarrow> pv_sub a b = Inr a) \<and>
   (dimension a = dimension b \<longrightarrow>
      pv_sub a b = Inr \<lparr>dimension = dimension a, volume = volume a - volume b\<rparr>) \<and>
   (dimension a < dimension b \<longrightarrow> pv_sub a b = Inl IllegalSubtraction) \<and>
   ((\<exists>v. pv_sub a b = Inr v) \<longleftrightarrow> dimension b \<le> dimension a)"
  by (auto simp: pv_sub_def)

theorem pv_sub_cases_witness:
  "pv_sub \<lparr>dimension = 2, volume = 5\<rparr> \<lparr>dimension = 1, volume = 7\<rparr>
     = Inr \<lparr>dimension = 2, volume = 5\<rparr> \<and>
   pv_sub \<lparr>dimension = 1, volume = 5\<rparr> \<lparr>dimension = 1, volume = 7\<rparr>
     = Inr \<lparr>dimension = 1, volume = - 2\<rparr> \<and>
   pv_sub \<lparr>dimension = 1, volume = 5\<rparr> \<lparr>dimension = 2, volume = 7\<rparr>
     = Inl IllegalSubtraction"
  using pv_sub_cases [where a = "\<lparr>dimension = 2, volume = 5\<rparr>" and b = "\<lparr>dimension = 1, volume = 7\<rparr>"]
        pv_sub_cases [where a = "\<lparr>dimension = 1, volume = 5\<rparr>" and b = "\<lparr>dimension = 1, volume = 7\<rparr>"]
        pv_sub_cases [where a = "\<lparr>dimension = 1, volume = 5\<rparr>" and b = "\<lparr>dimension = 2, volume = 7\<rparr>"]
  by simp

section \<open>Properties of Polytope\<close>

lemma bindE_simps [simp]:
  "bindE (Inl e) f = Inl e" "bindE (Inr x) f = f x"
  by (simp_all add: bindE_def)

lemma Polytope_vertices_read:
  "Polytope_vertices be p =
     Inr (read_vertices be p, p\<lparr>memo_vertices := Some (read_vertices be p)\<rparr>)"
  by (cases "memo_vertices p")
     (simp_all add: Polytope_vertices_def memoized_property_def read_vertices_def
        Polytope_vertices_fget_def)

lemma Polytope_volume_read:
  "Polytope_volume be p =
     bindE (read_volume be p) (\<lambda>v. Inr (v, p\<lparr>memo_volume := Some v\<rparr>))"
  by (cases "memo_volume p")
     (simp_all add: Polytope_volume_def memoized_property_def read_volume_def)

lemma subvertices_loop_iff:
  "subvertices_loop sub cap \<longleftrightarrow> (\<forall>v\<in>set sub. \<exists>c\<in>set cap. v \<in> set c)"
  by (induction sub) (auto simp: list_ex_iff)

lemma vertices_loop_iff:
  "vertices_loop little cap \<longleftrightarrow> (\<forall>sub\<in>set little. \<forall>v\<in>set sub. \<exists>c\<in>set cap. v \<in> set c)"
  by (induction little) (auto simp: subvertices_loop_iff)

lemma Polytope_volume_fget_cells [simp]:
  "Polytope_volume_fget be (p\<lparr>memo_vertices := x\<rparr>) = Polytope_volume_fget be p"
  "Polytope_volume_fget be (p\<lparr>memo_volume := y\<rparr>) = Polytope_volume_fget be p"
  by (simp_all add: Polytope_volume_fget_def)

lemma read_volume_vertices_cell [simp]:
  "read_volume be (p\<lparr>memo_vertices := x\<rparr>) = read_volume be p"
  by (cases "memo_volume p") (simp_all add: read_volume_def)

lemma intersect_cells [simp]:
  "memo_volume (Polytope_intersect a b) = None"
  "memo_vertices (Polytope_intersect a b) = None"
  by (simp_all add: Polytope_intersect_def clear_memoization_def Let_def)

lemma union_cells [simp]:
  "memo_volume (Polytope_union a b) = None"
  "memo_vertices (Polytope_union a b) = None"
  by (simp_all add: Polytope_union_def clear_memoization_def Let_def)

subsection \<open>Polytope.contains\<close>

lemma Polytope_contains_eq:
  "Polytope_contains be self other =
     (if (\<forall>sub\<in>set (read_vertices be other). \<forall>v\<in>set sub.
            \<exists>cap\<in>set (read_vertices be (Polytope_intersect other self)). v \<in> set cap)
      then bindE (read_volume be other) (\<lambda>little_volume.
           bindE (read_volume be (Polytope_intersect other self)) (\<lambda>cap_volume.
             Inr (cap_volume = little_volume,
                  other\<lparr>memo_vertices := Some (read_vertices be other),
                        memo_volume := Some little_volume\<rparr>)))
      else Inr (False, other\<lparr>memo_vertices := Some (read_vertices be other)\<rparr>))"
  by (auto simp: Polytope_contains_def Let_def Polytope_vertices_read Polytope_volume_read
        vertices_loop_iff bindE_def split: sum.splits)

lemma read_fresh:
  "memo_vertices p = None \<Longrightarrow>
     read_vertices be p = map (ConvexPolytope_vertices be) (convex_subpolytopes p)"
  "memo_volume p = None \<Longrightarrow> read_volume be p = Polytope_volume_fget be p"
  by (simp_all add: read_vertices_def read_volume_def)

lemma read_coherent:
  "memo_coherent be p \<Longrightarrow>
     read_vertices be p = map (ConvexPolytope_vertices be) (convex_subpolytopes p) \<and>
     read_volume be p = Polytope_volume_fget be p"
  by (auto simp: memo_coherent_def read_vertices_def read_volume_def split: option.splits)

lemma Polytope_contains_coherent:
  assumes "memo_coherent be other"
  shows "Polytope_contains be self other =
     (if (\<forall>c\<in>set (convex_subpolytopes other). \<forall>v\<in>set (ConvexPolytope_vertices be c).
            \<exists>ci\<in>set (convex_subpolytopes (Polytope_intersect other self)).
               v \<in> set (ConvexPolytope_vertices be ci))
      then bindE (Polytope_volume_fget be other) (\<lambda>little_volume.
           bindE (Polytope_volume_fget be (Polytope_intersect other self)) (\<lambda>cap_volume.
             Inr (cap_volume = little_volume,
                  other\<lparr>memo_vertices := Some (read_vertices be other),
                        memo_volume := Some little_volume\<rparr>)))
      else Inr (False, other\<lparr>memo_vertices := Some (read_vertices be other)\<rparr>))"
proof -
  have rv: "read_vertices be other = map (ConvexPolytope_vertices be) (convex_subpolytopes other)"
           "read_volume be other = Polytope_volume_fget be other"
    using read_coherent [OF assms] by simp_all
  have ri: "read_vertices be (Polytope_intersect other self)
              = map (ConvexPolytope_vertices be) (convex_subpolytopes (Polytope_intersect other self))"
           "read_volume be (Polytope_intersect other self)
              = Polytope_volume_fget be (Polytope_intersect other self)"
    by (simp_all add: read_fresh)
  have vp: "(\<forall>sub\<in>set (read_vertices be other). \<forall>v\<in>set sub.
            \<exists>cap\<in>set (read_vertices be (Polytope_intersect other self)). v \<in> set cap)
        \<longleftrightarrow> (\<forall>c\<in>set (convex_subpolytopes other). \<forall>v\<in>set (ConvexPolytope_vertices be c).
            \<exists>ci\<in>set (convex_subpolytopes (Polytope_intersect other self)).
               v \<in> set (ConvexPolytope_vertices be ci))"
    unfolding rv(1) ri(1) by auto
  show ?thesis
    unfolding Polytope_contains_eq vp ri(2) rv(2) ..
qed




lemma volume_fget_empty:
  "convex_subpolytopes p = [] \<Longrightarrow>
     Polytope_volume_fget be p = Inr \<lparr>dimension = 0, volume = 0\<rparr>"
  by (simp add: Polytope_volume_fget_def)

lemma intersect_empty_left:
  "convex_subpolytopes p = [] \<Longrightarrow> convex_subpolytopes (Polytope_intersect p q) = []"
  by (simp add: Polytope_intersect_def clear_memoization_def Let_def copy_def)




subsection \<open>trim_polytope_set\<close>

lemma foldl_enumerate_above:
  "index < k \<Longrightarrow>
   foldl (\<lambda>other_polytope (subindex, polytope).
            if subindex = index then other_polytope else Polytope_union other_polytope polytope)
     a (enumerate k xs) = foldl Polytope_union a xs"
  by (induction xs arbitrary: k a) auto

lemma foldl_enumerate_skip:
  "k \<le> index \<Longrightarrow>
   foldl (\<lambda>other_polytope (subindex, polytope).
            if subindex = index then other_polytope else Polytope_union other_polytope polytope)
     a (enumerate k xs)
   = foldl Polytope_union a (take (index - k) xs @ drop (Suc (index - k)) xs)"
proof (induction xs arbitrary: k a)
  case Nil
  then show ?case by simp
next
  case (Cons x xs)
  show ?case
  proof (cases "k = index")
    case True
    then show ?thesis by (simp add: foldl_enumerate_above)
  next
    case False
    with Cons.prems have lt: "Suc k \<le> index" by simp
    then obtain j where j: "index - k = Suc j" "index - Suc k = j"
      by (metis Suc_diff_le diff_Suc_Suc)
    show ?thesis using False Cons.IH [OF lt] j by simp
  qed
qed

lemma others_union_eq:
  "others_union fu index xs = foldl Polytope_union fu (take index xs @ drop (Suc index) xs)"
  using foldl_enumerate_skip [of 0 index fu xs] by (simp add: others_union_def)

lemma trim_loop_scan:
  "length pre = n \<Longrightarrow>
   trim_loop be fu (rev [0..<n]) (pre @ kept) = scan_from_last be fu (rev pre) kept"
proof (induction n arbitrary: pre kept)
  case 0
  then show ?case by simp
next
  case (Suc m)
  then obtain p c where pre: "pre = p @ [c]" and lp: "length p = m"
    by (metis length_Suc_conv_rev)
  have del: "take m (pre @ kept) @ drop (Suc m) (pre @ kept) = p @ kept"
    using lp by (simp add: pre)
  have upd: "(pre @ kept)[m := c'] = p @ (c' # kept)" for c'
    using lp by (simp add: pre list_update_append)
  have nth: "(pre @ kept) ! m = c"
    using lp by (simp add: pre nth_append)
  have step: "trim_loop be fu (rev [0..<m]) (p @ ks) = scan_from_last be fu (rev p) ks" for ks
    using Suc.IH [OF lp] .
  show ?case
    using lp
    by (simp add: pre nth_append others_union_eq Let_def step bindE_def
          split: sum.splits prod.splits)
       (auto simp: list_update_append step [symmetric])
qed


lemma read_volumes_all2:
  "read_volumes be ts = Inr keyed \<Longrightarrow>
   list_all2 (\<lambda>x kx. read_volume be x = Inr (fst kx) \<and>
                      snd kx = x\<lparr>memo_volume := Some (fst kx)\<rparr>) ts keyed"
proof (induction ts arbitrary: keyed)
  case Nil
  then show ?case by simp
next
  case (Cons x xs)
  then show ?case
    by (auto simp: Polytope_volume_read bindE_def split: sum.splits)
qed

lemma read_volumes_cells:
  "read_volumes be ts = Inr keyed \<Longrightarrow> kx \<in> set keyed \<Longrightarrow> memo_volume (snd kx) = Some (fst kx)"
  by (drule read_volumes_all2) (auto simp: list_all2_conv_all_nth in_set_conv_nth)

lemma sorted_reverse_descending:
  "sorted_wrt (\<lambda>a b. key b \<le> key a) (sorted_reverse key xs)"
proof -
  have "sorted_wrt (\<lambda>a b. key a \<le> key b) (sort_key key (rev xs))"
    using sorted_sort_key [of key "rev xs"] by (simp add: sorted_wrt_map)
  then show ?thesis by (simp add: sorted_reverse_def sorted_wrt_rev)
qed

lemma sorted_reverse_stable:
  "filter (\<lambda>x. key x = k) (sorted_reverse key xs) = filter (\<lambda>x. key x = k) xs"
  by (simp add: sorted_reverse_def sort_key_stable flip: rev_filter)

lemma sorted_reverse_mset: "mset (sorted_reverse key xs) = mset xs"
  by (simp add: sorted_reverse_def)

lemma contains_fills_vertices:
  assumes "Polytope_contains be other_polytope c = Inr (redundant, c')"
      and "memo_volume c = Some v"
  shows "c' = c\<lparr>memo_vertices := Some (read_vertices be c)\<rparr>"
proof -
  have "read_volume be c = Inr v" using assms(2) by (simp add: read_volume_def)
  moreover have "c\<lparr>memo_vertices := x, memo_volume := Some v\<rparr> = c\<lparr>memo_vertices := x\<rparr>" for x
    using assms(2) by (cases c) simp
  ultimately show ?thesis
    using assms(1)
    by (auto simp: Polytope_contains_eq bindE_def split: if_splits sum.splits)
qed

lemma scan_from_last_survivors:
  "scan_from_last be context cs kept = Inr ys \<Longrightarrow>
   (\<And>c. c \<in> set cs \<Longrightarrow> memo_volume c \<noteq> None) \<Longrightarrow>
   \<exists>zs. subseq zs (rev cs) \<and>
        ys = map (\<lambda>p. p\<lparr>memo_vertices := Some (read_vertices be p)\<rparr>) zs @ kept"
proof (induction cs arbitrary: kept ys)
  case Nil
  then show ?case by simp
next
  case (Cons c earlier)
  let ?fill = "\<lambda>p. p\<lparr>memo_vertices := Some (read_vertices be p)\<rparr>"
  from Cons.prems(1) obtain redundant c' where
    con: "Polytope_contains be (foldl Polytope_union context (rev earlier @ kept)) c
            = Inr (redundant, c')" and
    rest: "scan_from_last be context earlier (if redundant then kept else c' # kept) = Inr ys"
    by (auto simp: bindE_def split: sum.splits)
  from Cons.prems(2) obtain v where "memo_volume c = Some v" by fastforce
  with con have c': "c' = ?fill c" by (rule contains_fills_vertices)
  from Cons.IH [OF rest] Cons.prems(2) obtain zs where
    zs: "subseq zs (rev earlier)"
        "ys = map ?fill zs @ (if redundant then kept else c' # kept)"
    by auto
  show ?case
  proof (cases redundant)
    case True
    with zs have "subseq zs (rev (c # earlier))" "ys = map ?fill zs @ kept"
      by (simp_all add: subseq_rev_drop_many)
    then show ?thesis by blast
  next
    case False
    with zs c' have "subseq (zs @ [c]) (rev (c # earlier))" "ys = map ?fill (zs @ [c]) @ kept"
      by (simp_all add: list_emb_append_mono)
    then show ?thesis by blast
  qed
qed

lemma foldl_union_components:
  "convex_subpolytopes (foldl Polytope_union a xs)
     = convex_subpolytopes a @ concat (map convex_subpolytopes xs)"
  by (induction xs arbitrary: a)
     (simp_all add: Polytope_union_def clear_memoization_def copy_def Let_def)

lemma trim_polytope_set_eq_scan:
  "trim_polytope_set be ts fs =
     bindE (read_volumes be ts) (\<lambda>keyed.
       scan_from_last be (fixed_union fs)
         (rev (map snd (sorted_reverse (\<lambda>kx. pv_key (fst kx)) keyed))) [])"
proof -
  have fu: "(case fs of None \<Rightarrow> new_Polytope [] | Some f \<Rightarrow> foldl Polytope_union (new_Polytope []) f)
              = fixed_union fs"
    by (simp add: fixed_union_def split: option.splits)
  have loop: "trim_loop be (fixed_union fs) (rev [0..<length (map snd S)]) (map snd S)
                = scan_from_last be (fixed_union fs) (rev (map snd S)) []"
    for S :: "(PolytopeVolume \<times> Polytope) list"
    using trim_loop_scan [where kept = "[]" and pre = "map snd S", OF refl] by simp
  show ?thesis
    unfolding trim_polytope_set_def Let_def fu loop ..
qed


text \<open>
  C7. \<open>trim_polytope_set\<close> reads the volume of every candidate, sorts the candidates
  by volume in descending order of \<open>(dimension, volume)\<close> keeping equal volumes in
  input order, and scans them from the last to the first, dropping a candidate exactly
  when the union of the context polytopes with all other remaining candidates contains
  it. The context enters every test whole and is no candidate. The result is a
  subsequence of the sorted candidates (each survivor with its vertex cell filled by
  the test it went through).
\<close>

theorem trim_polytope_set_scan:
  "trim_polytope_set be ts fs =
     bindE (read_volumes be ts) (\<lambda>keyed.
       scan_from_last be (fixed_union fs)
         (rev (map snd (sorted_reverse (\<lambda>kx. pv_key (fst kx)) keyed))) []) \<and>
   convex_subpolytopes (fixed_union fs) =
     concat (map convex_subpolytopes (case fs of None \<Rightarrow> [] | Some f \<Rightarrow> f)) \<and>
   (\<forall>keyed. read_volumes be ts = Inr keyed \<longrightarrow>
      list_all2 (\<lambda>x kx. read_volume be x = Inr (fst kx) \<and>
                         snd kx = x\<lparr>memo_volume := Some (fst kx)\<rparr>) ts keyed \<and>
      sorted_wrt (\<lambda>a b. pv_key (fst b) \<le> pv_key (fst a))
        (sorted_reverse (\<lambda>kx. pv_key (fst kx)) keyed) \<and>
      (\<forall>k. filter (\<lambda>kx. pv_key (fst kx) = k) (sorted_reverse (\<lambda>kx. pv_key (fst kx)) keyed)
           = filter (\<lambda>kx. pv_key (fst kx) = k) keyed) \<and>
      (\<forall>ys. trim_polytope_set be ts fs = Inr ys \<longrightarrow>
         (\<exists>zs. subseq zs (map snd (sorted_reverse (\<lambda>kx. pv_key (fst kx)) keyed)) \<and>
               ys = map (\<lambda>p. p\<lparr>memo_vertices := Some (read_vertices be p)\<rparr>) zs)))"
proof (intro conjI allI impI)
  let ?key = "\<lambda>kx :: PolytopeVolume \<times> Polytope. pv_key (fst kx)"
  show "trim_polytope_set be ts fs =
     bindE (read_volumes be ts) (\<lambda>keyed.
       scan_from_last be (fixed_union fs) (rev (map snd (sorted_reverse ?key keyed))) [])"
    by (rule trim_polytope_set_eq_scan)
  show "convex_subpolytopes (fixed_union fs) =
     concat (map convex_subpolytopes (case fs of None \<Rightarrow> [] | Some f \<Rightarrow> f))"
    by (simp add: fixed_union_def foldl_union_components new_Polytope_def)
next
  fix keyed assume rv: "read_volumes be ts = Inr keyed"
  let ?key = "\<lambda>kx :: PolytopeVolume \<times> Polytope. pv_key (fst kx)"
  show "list_all2 (\<lambda>x kx. read_volume be x = Inr (fst kx) \<and>
                         snd kx = x\<lparr>memo_volume := Some (fst kx)\<rparr>) ts keyed"
    using rv by (rule read_volumes_all2)
  show "sorted_wrt (\<lambda>a b. pv_key (fst b) \<le> pv_key (fst a)) (sorted_reverse ?key keyed)"
    by (rule sorted_reverse_descending)
  show "filter (\<lambda>kx. pv_key (fst kx) = k) (sorted_reverse ?key keyed)
          = filter (\<lambda>kx. pv_key (fst kx) = k) keyed" for k
    by (rule sorted_reverse_stable)
  show "\<exists>zs. subseq zs (map snd (sorted_reverse ?key keyed)) \<and>
             ys = map (\<lambda>p. p\<lparr>memo_vertices := Some (read_vertices be p)\<rparr>) zs"
    if "trim_polytope_set be ts fs = Inr ys" for ys
  proof -
    from that rv have scan:
      "scan_from_last be (fixed_union fs) (rev (map snd (sorted_reverse ?key keyed))) [] = Inr ys"
      by (simp add: trim_polytope_set_eq_scan)
    have cells: "memo_volume c \<noteq> None"
      if "c \<in> set (rev (map snd (sorted_reverse ?key keyed)))" for c
      using that read_volumes_cells [OF rv] by (auto simp: sorted_reverse_def)
    from scan_from_last_survivors [OF scan cells] show ?thesis by simp
  qed
qed

theorem trim_polytope_set_scan_witness:
  "read_volumes interval_backend [new_Polytope [interval 0 1], new_Polytope [interval 0 2]]
     = Inr [(\<lparr>dimension = 1, volume = 1\<rparr>,
             (new_Polytope [interval 0 1])\<lparr>memo_volume := Some \<lparr>dimension = 1, volume = 1\<rparr>\<rparr>),
            (\<lparr>dimension = 1, volume = 2\<rparr>,
             (new_Polytope [interval 0 2])\<lparr>memo_volume := Some \<lparr>dimension = 1, volume = 2\<rparr>\<rparr>)] \<and>
   trim_polytope_set interval_backend
       [new_Polytope [interval 0 1], new_Polytope [interval 0 2]] None
     = Inr [\<lparr>convex_subpolytopes = [interval 0 2],
             memo_volume = Some \<lparr>dimension = 1, volume = 2\<rparr>,
             memo_vertices = Some [[[0], [2]]]\<rparr>] \<and>
   (\<exists>zs. subseq zs
           [(new_Polytope [interval 0 2])\<lparr>memo_volume := Some \<lparr>dimension = 1, volume = 2\<rparr>\<rparr>,
            (new_Polytope [interval 0 1])\<lparr>memo_volume := Some \<lparr>dimension = 1, volume = 1\<rparr>\<rparr>] \<and>
         [\<lparr>convex_subpolytopes = [interval 0 2],
           memo_volume = Some \<lparr>dimension = 1, volume = 2\<rparr>,
           memo_vertices = Some [[[0], [2]]]\<rparr>]
           = map (\<lambda>p. p\<lparr>memo_vertices := Some (read_vertices interval_backend p)\<rparr>) zs)"
proof -
  let ?ts = "[new_Polytope [interval 0 1], new_Polytope [interval 0 2]]"
  let ?keyed = "[(\<lparr>dimension = 1, volume = 1\<rparr>,
             (new_Polytope [interval 0 1])\<lparr>memo_volume := Some \<lparr>dimension = 1, volume = 1\<rparr>\<rparr>),
            (\<lparr>dimension = 1, volume = 2\<rparr>,
             (new_Polytope [interval 0 2])\<lparr>memo_volume := Some \<lparr>dimension = 1, volume = 2\<rparr>\<rparr>)]"
  let ?ys = "[\<lparr>convex_subpolytopes = [interval 0 2],
             memo_volume = Some \<lparr>dimension = 1, volume = 2\<rparr>,
             memo_vertices = Some [[[0], [2]]]\<rparr>]"
  have rv: "read_volumes interval_backend ?ts = Inr ?keyed"
    by code_simp
  have tr: "trim_polytope_set interval_backend ?ts None = Inr ?ys"
    by code_simp
  have so: "map snd (sorted_reverse (\<lambda>kx. pv_key (fst kx)) ?keyed)
      = [(new_Polytope [interval 0 2])\<lparr>memo_volume := Some \<lparr>dimension = 1, volume = 2\<rparr>\<rparr>,
         (new_Polytope [interval 0 1])\<lparr>memo_volume := Some \<lparr>dimension = 1, volume = 1\<rparr>\<rparr>]"
    by code_simp
  from trim_polytope_set_scan [of interval_backend ?ts None] rv tr
  have "\<exists>zs. subseq zs (map snd (sorted_reverse (\<lambda>kx. pv_key (fst kx)) ?keyed)) \<and>
             ?ys = map (\<lambda>p. p\<lparr>memo_vertices := Some (read_vertices interval_backend p)\<rparr>) zs"
    by blast
  then show ?thesis unfolding so using rv tr by blast
qed

subsection \<open>Running trim_polytope_set on its own output\<close>

text \<open>
  The second run finds every cell filled and the list sorted, and it tests every
  survivor against a union whose components are a sublist of the components it was
  tested against in the first run. Whether the test still fails then depends on the
  volumes the backend returns. The lemma \<open>trim_polytope_set_fixed_point_if_inherited\<close>
  gives the fixed point under the condition that a rejection of a survivor by a union
  is inherited by every union of a sublist of its components.
\<close>

lemma sorted_wrt_subseq_preserved:
  "subseq xs ys \<Longrightarrow> sorted_wrt P ys \<Longrightarrow> sorted_wrt P xs"
proof (induction rule: list_emb.induct)
  case (list_emb_Cons xs ys y)
  then show ?case by simp
next
  case (list_emb_Cons2 x y xs ys)
  then show ?case by (auto dest: list_emb_set)
qed simp

lemma subseq_concat_map:
  "subseq xs ys \<Longrightarrow> subseq (concat (map f xs)) (concat (map f ys))"
proof (induction rule: list_emb.induct)
  case (list_emb_Cons xs ys y)
  then show ?case by (simp add: list_emb_append2)
next
  case (list_emb_Cons2 x y xs ys)
  then show ?case by (simp add: list_emb_append_mono)
qed simp

lemma sorted_reverse_id:
  "sorted_wrt (\<lambda>a b. key b \<le> key a) xs \<Longrightarrow> sorted_reverse key xs = xs"
proof -
  assume "sorted_wrt (\<lambda>a b. key b \<le> key a) xs"
  then have "sorted_wrt (\<lambda>a b. key a \<le> key b) (rev xs)" by (simp add: sorted_wrt_rev)
  then have "sorted (map key (rev xs))" by (simp add: sorted_wrt_map)
  then show ?thesis by (simp add: sorted_reverse_def sort_key_id_if_sorted)
qed

lemma contains_self_components:
  "convex_subpolytopes others = convex_subpolytopes others' \<Longrightarrow>
     Polytope_contains be others y = Polytope_contains be others' y"
  by (simp add: Polytope_contains_def Polytope_intersect_def)

lemma contains_filled:
  "Polytope_contains be others (y\<lparr>memo_vertices := Some (read_vertices be y)\<rparr>)
     = Polytope_contains be others y"
proof -
  let ?y = "y\<lparr>memo_vertices := Some (read_vertices be y)\<rparr>"
  have i: "Polytope_intersect ?y others = Polytope_intersect y others"
    by (simp add: Polytope_intersect_def clear_memoization_def copy_def Let_def)
  have rv: "read_vertices be ?y = read_vertices be y" by (simp add: read_vertices_def)
  show ?thesis by (auto simp: Polytope_contains_eq i rv)
qed


lemma snoc_split_cases:
  "e @ y # l = xs @ [z] \<longleftrightarrow>
     (l = [] \<and> e = xs \<and> y = z) \<or> (\<exists>l'. l = l' @ [z] \<and> e @ y # l' = xs)"
  by (cases l rule: rev_cases) auto

lemma scan_from_last_rejections:
  "scan_from_last be context cs kept = Inr out \<Longrightarrow>
   (\<And>c. c \<in> set cs \<Longrightarrow> memo_volume c \<noteq> None) \<Longrightarrow>
   \<exists>zs. subseq zs (rev cs) \<and>
        out = map (\<lambda>p. p\<lparr>memo_vertices := Some (read_vertices be p)\<rparr>) zs @ kept \<and>
        (\<forall>e y l. map (\<lambda>p. p\<lparr>memo_vertices := Some (read_vertices be p)\<rparr>) zs = e @ y # l \<longrightarrow>
           (\<exists>others. rejected be others y \<and>
              subseq (convex_subpolytopes (foldl Polytope_union context (e @ l @ kept)))
                     (convex_subpolytopes others)))"
proof (induction cs arbitrary: kept out)
  case Nil
  then show ?case by simp
next
  case (Cons c earlier)
  let ?fill = "\<lambda>p. p\<lparr>memo_vertices := Some (read_vertices be p)\<rparr>"
  let ?others = "foldl Polytope_union context (rev earlier @ kept)"
  from Cons.prems(1) obtain redundant c' where
    con: "Polytope_contains be ?others c = Inr (redundant, c')" and
    rest: "scan_from_last be context earlier (if redundant then kept else c' # kept) = Inr out"
    by (auto simp: bindE_def split: sum.splits)
  from Cons.prems(2) obtain v where "memo_volume c = Some v" by fastforce
  with con have c': "c' = ?fill c" by (rule contains_fills_vertices)
  from Cons.IH [OF rest] Cons.prems(2) obtain zs where
    zs: "subseq zs (rev earlier)"
        "out = map ?fill zs @ (if redundant then kept else c' # kept)" and
    rej: "\<And>e y l. map ?fill zs = e @ y # l \<Longrightarrow>
           \<exists>others. rejected be others y \<and>
              subseq (convex_subpolytopes
                        (foldl Polytope_union context
                           (e @ l @ (if redundant then kept else c' # kept))))
                     (convex_subpolytopes others)"
    by auto
  show ?case
  proof (cases redundant)
    case True
    with zs rej have "subseq zs (rev (c # earlier))" "out = map ?fill zs @ kept"
      "\<forall>e y l. map ?fill zs = e @ y # l \<longrightarrow>
           (\<exists>others. rejected be others y \<and>
              subseq (convex_subpolytopes (foldl Polytope_union context (e @ l @ kept)))
                     (convex_subpolytopes others))"
      by (simp_all add: subseq_rev_drop_many)
    then show ?thesis by blast
  next
    case False
    have s1: "subseq (zs @ [c]) (rev (c # earlier))"
      using zs(1) by (simp add: list_emb_append_mono)
    have s2: "out = map ?fill (zs @ [c]) @ kept"
      using zs(2) False c' by simp
    have s3: "\<exists>others. rejected be others y \<and>
              subseq (convex_subpolytopes (foldl Polytope_union context (e @ l @ kept)))
                     (convex_subpolytopes others)"
      if split: "map ?fill (zs @ [c]) = e @ y # l" for e y l
    proof -
      from split have "e @ y # l = map ?fill zs @ [?fill c]" by simp
      then consider (last) "l = []" "e = map ?fill zs" "y = ?fill c"
        | (inner) l' where "l = l' @ [?fill c]" "e @ y # l' = map ?fill zs"
        by (auto simp: snoc_split_cases)
      then show ?thesis
      proof cases
        case last
        have "rejected be ?others c"
          using con False by (simp add: rejected_def)
        then have r: "rejected be ?others y"
          by (simp add: rejected_def last(3) contains_filled)
        have "subseq (concat (map convex_subpolytopes zs))
                     (concat (map convex_subpolytopes (rev earlier)))"
          using zs(1) by (rule subseq_concat_map)
        then have "subseq (convex_subpolytopes (foldl Polytope_union context (e @ l @ kept)))
                          (convex_subpolytopes ?others)"
          by (simp add: last foldl_union_components comp_def list_emb_append_mono)
        with r show ?thesis by blast
      next
        case inner
        from rej [OF inner(2) [symmetric]] False c' inner(1) show ?thesis by simp
      qed
    qed
    from s1 s2 s3 show ?thesis by blast
  qed
qed


lemma scan_keeps_all:
  "(\<And>e y l. pre = e @ y # l \<Longrightarrow>
      Polytope_contains be (foldl Polytope_union context (e @ l @ post)) y = Inr (False, y)) \<Longrightarrow>
   scan_from_last be context (rev pre) post = Inr (pre @ post)"
proof (induction pre arbitrary: post rule: rev_induct)
  case Nil
  then show ?case by simp
next
  case (snoc c p)
  have here: "Polytope_contains be (foldl Polytope_union context (p @ post)) c = Inr (False, c)"
    using snoc.prems [of p c "[]"] by simp
  have "scan_from_last be context (rev p) (c # post) = Inr (p @ c # post)"
  proof (rule snoc.IH)
    fix e y l assume "p = e @ y # l"
    then have "p @ [c] = e @ y # (l @ [c])" by simp
    from snoc.prems [OF this]
    show "Polytope_contains be (foldl Polytope_union context (e @ l @ c # post)) y = Inr (False, y)"
      by simp
  qed
  with here show ?case by simp
qed

lemma read_volumes_filled:
  "(\<And>y. y \<in> set ys \<Longrightarrow> memo_volume y \<noteq> None) \<Longrightarrow>
     read_volumes be ys = Inr (map (\<lambda>y. (the (memo_volume y), y)) ys)"
proof (induction ys)
  case Nil
  then show ?case by simp
next
  case (Cons y ys)
  from Cons.prems obtain v where "memo_volume y = Some v" by fastforce
  then have "Polytope_volume be y = Inr (v, y)"
    by (simp add: Polytope_volume_def memoized_property_def)
  with Cons \<open>memo_volume y = Some v\<close> show ?case by simp
qed

lemma trim_polytope_set_fixed_point_if_inherited:
  assumes run: "trim_polytope_set be ts fs = Inr ys"
      and inherited: "\<And>others others' y. y \<in> set ys \<Longrightarrow> rejected be others y \<Longrightarrow>
             subseq (convex_subpolytopes others') (convex_subpolytopes others) \<Longrightarrow>
             rejected be others' y"
  shows "trim_polytope_set be ys fs = Inr ys"
proof -
  let ?key = "\<lambda>kx :: PolytopeVolume \<times> Polytope. pv_key (fst kx)"
  let ?fill = "\<lambda>p. p\<lparr>memo_vertices := Some (read_vertices be p)\<rparr>"
  let ?k2 = "\<lambda>p :: Polytope. pv_key (the (memo_volume p))"
  from run obtain keyed where rv: "read_volumes be ts = Inr keyed" and
    scan: "scan_from_last be (fixed_union fs) (rev (map snd (sorted_reverse ?key keyed))) [] = Inr ys"
    by (auto simp: trim_polytope_set_eq_scan bindE_def split: sum.splits)
  let ?S = "map snd (sorted_reverse ?key keyed)"
  have cellsS: "memo_volume (snd kx) = Some (fst kx)" if "kx \<in> set keyed" for kx
    using read_volumes_cells [OF rv that] .
  have volS: "memo_volume c \<noteq> None" if "c \<in> set (rev ?S)" for c
    using that cellsS by (auto simp: sorted_reverse_def)
  from scan_from_last_rejections [OF scan volS] obtain zs where
    zs: "subseq zs ?S" "ys = map ?fill zs" and
    rej: "\<And>e y l. ys = e @ y # l \<Longrightarrow>
            \<exists>others. rejected be others y \<and>
              subseq (convex_subpolytopes (foldl Polytope_union (fixed_union fs) (e @ l)))
                     (convex_subpolytopes others)"
    by auto
  have zsS: "set zs \<subseteq> set ?S" using zs(1) by (auto dest: list_emb_set)
  have vol_ys: "memo_volume y \<noteq> None" if "y \<in> set ys" for y
  proof -
    from that zs(2) obtain z where "z \<in> set zs" "y = ?fill z" by auto
    moreover from this zsS have "z \<in> set (rev ?S)" by auto
    then have "memo_volume z \<noteq> None" by (rule volS)
    ultimately show ?thesis by simp
  qed
  have vert_ys: "y\<lparr>memo_vertices := Some (read_vertices be y)\<rparr> = y" if "y \<in> set ys" for y
  proof -
    from that zs(2) obtain z where "y = ?fill z" by auto
    then show ?thesis by (simp add: read_vertices_def)
  qed
  \<comment> \<open>the second run reads the cells and finds the list sorted\<close>
  have rv2: "read_volumes be ys = Inr (map (\<lambda>y. (the (memo_volume y), y)) ys)"
    using vol_ys by (rule read_volumes_filled)
  have "sorted_wrt (\<lambda>a b. ?key b \<le> ?key a) (sorted_reverse ?key keyed)"
    by (rule sorted_reverse_descending)
  then have "sorted_wrt (\<lambda>a b. ?k2 (snd b) \<le> ?k2 (snd a)) (sorted_reverse ?key keyed)"
    by (rule sorted_wrt_mono_rel [rotated]) (auto simp: sorted_reverse_def cellsS)
  then have "sorted_wrt (\<lambda>a b. ?k2 b \<le> ?k2 a) ?S"
    by (simp add: sorted_wrt_map)
  with zs(1) have "sorted_wrt (\<lambda>a b. ?k2 b \<le> ?k2 a) zs"
    by (rule sorted_wrt_subseq_preserved)
  then have "sorted_wrt (\<lambda>a b. ?k2 b \<le> ?k2 a) ys"
    by (simp add: zs(2) sorted_wrt_map)
  then have "sorted_wrt (\<lambda>a b. ?key b \<le> ?key a) (map (\<lambda>y. (the (memo_volume y), y)) ys)"
    by (simp add: sorted_wrt_map)
  then have sorted2: "map snd (sorted_reverse ?key (map (\<lambda>y. (the (memo_volume y), y)) ys)) = ys"
    by (simp add: sorted_reverse_id comp_def)
  \<comment> \<open>the second run drops nothing\<close>
  have keep: "Polytope_contains be (foldl Polytope_union (fixed_union fs) (e @ l @ [])) y
                = Inr (False, y)"
    if split: "ys = e @ y # l" for e y l
  proof -
    from split have y: "y \<in> set ys" by simp
    from rej [OF split] obtain others where
      "rejected be others y"
      "subseq (convex_subpolytopes (foldl Polytope_union (fixed_union fs) (e @ l)))
              (convex_subpolytopes others)"
      by blast
    from inherited [OF y this]
    have "rejected be (foldl Polytope_union (fixed_union fs) (e @ l)) y" .
    then obtain y' where
      c: "Polytope_contains be (foldl Polytope_union (fixed_union fs) (e @ l)) y = Inr (False, y')"
      by (auto simp: rejected_def split: sum.splits)
    from vol_ys [OF y] obtain v where "memo_volume y = Some v" by auto
    with c have "y' = y\<lparr>memo_vertices := Some (read_vertices be y)\<rparr>"
      by (rule contains_fills_vertices)
    with vert_ys [OF y] c show ?thesis by simp
  qed
  have "scan_from_last be (fixed_union fs) (rev ys) [] = Inr (ys @ [])"
    by (rule scan_keeps_all) (rule keep)
  with rv2 sorted2 show ?thesis
    by (simp add: trim_polytope_set_eq_scan)
qed

text \<open>
  A rejection in the vertex phase is inherited: a vertex missing from the intersection
  with a union is missing from the intersection with any union of some of its
  components.
\<close>

lemma vertex_rejection_inherited:
  assumes sub: "set (convex_subpolytopes others') \<subseteq> set (convex_subpolytopes others)"
      and missing: "\<not> (\<forall>sub\<in>set (read_vertices be y). \<forall>v\<in>set sub.
              \<exists>cap\<in>set (read_vertices be (Polytope_intersect y others)). v \<in> set cap)"
  shows "rejected be others' y"
proof -
  have caps: "set (read_vertices be (Polytope_intersect y others'))
                \<subseteq> set (read_vertices be (Polytope_intersect y others))"
    using sub
    by (auto simp: read_fresh Polytope_intersect_def clear_memoization_def copy_def Let_def)
  with missing have
    "\<not> (\<forall>sub\<in>set (read_vertices be y). \<forall>v\<in>set sub.
              \<exists>cap\<in>set (read_vertices be (Polytope_intersect y others')). v \<in> set cap)"
    by blast
  then have "Polytope_contains be others' y
               = Inr (False, y\<lparr>memo_vertices := Some (read_vertices be y)\<rparr>)"
    by (subst Polytope_contains_eq) (rule if_not_P)
  then show ?thesis by (simp add: rejected_def)
qed

subsection \<open>Memo cells of union, intersect and reduce\<close>

lemma Polytope_reduce_cells:
  "Polytope_reduce be self = Inr clone \<Longrightarrow>
     memo_volume clone = memo_volume self \<and> memo_vertices clone = memo_vertices self"
  by (auto simp: Polytope_reduce_def copy_def Let_def bindE_def split: sum.splits)

lemma Polytope_union_fresh:
  "memo_coherent be (Polytope_union self other) \<and>
   read_vertices be (Polytope_union self other)
     = map (ConvexPolytope_vertices be) (convex_subpolytopes self @ convex_subpolytopes other)"
  by (simp add: memo_coherent_def read_fresh)
     (simp add: Polytope_union_def clear_memoization_def copy_def Let_def)

lemma Polytope_intersect_fresh:
  "memo_coherent be (Polytope_intersect self other)"
  by (simp add: memo_coherent_def)

text \<open>
  C1. \<open>union\<close> and \<open>intersect\<close> call \<^verbatim>\<open>clear_memoization\<close> on the clone, so their
  results carry no cell and read what their own component list gives (lemmas
  \<open>union_cells\<close>, \<open>intersect_cells\<close> and the two lemmas above). \<open>reduce\<close> copies \<open>self\<close> and replaces
  the component list without clearing: the clone keeps the cells of \<open>self\<close>. Below, a
  polytope of the two intervals \<open>[0, 2]\<close> and \<open>[0, 1]\<close> has its vertices read, which
  fills the cell with two vertex sets; \<open>reduce\<close> then drops the second interval, and the
  clone, of one component, still answers a read of its vertices with the two cached
  sets, where its own component list gives one. The last conjunct is the same polytope
  through \<open>union\<close>: the cell is cleared.
\<close>

theorem Polytope_reduce_stale_cells:
  "Polytope_vertices interval_backend (new_Polytope [interval 0 2, interval 0 1])
     = Inr ([[[0], [2]], [[0], [1]]],
            \<lparr>convex_subpolytopes = [interval 0 2, interval 0 1], memo_volume = None,
             memo_vertices = Some [[[0], [2]], [[0], [1]]]\<rparr>) \<and>
   Polytope_reduce interval_backend
       \<lparr>convex_subpolytopes = [interval 0 2, interval 0 1], memo_volume = None,
        memo_vertices = Some [[[0], [2]], [[0], [1]]]\<rparr>
     = Inr \<lparr>convex_subpolytopes = [interval 0 2], memo_volume = None,
            memo_vertices = Some [[[0], [2]], [[0], [1]]]\<rparr> \<and>
   Polytope_vertices interval_backend
       \<lparr>convex_subpolytopes = [interval 0 2], memo_volume = None,
        memo_vertices = Some [[[0], [2]], [[0], [1]]]\<rparr>
     = Inr ([[[0], [2]], [[0], [1]]],
            \<lparr>convex_subpolytopes = [interval 0 2], memo_volume = None,
             memo_vertices = Some [[[0], [2]], [[0], [1]]]\<rparr>) \<and>
   Polytope_vertices_fget interval_backend
       \<lparr>convex_subpolytopes = [interval 0 2], memo_volume = None,
        memo_vertices = Some [[[0], [2]], [[0], [1]]]\<rparr>
     = Inr [[[0], [2]]] \<and>
   memo_vertices (Polytope_union
       \<lparr>convex_subpolytopes = [interval 0 2, interval 0 1], memo_volume = None,
        memo_vertices = Some [[[0], [2]], [[0], [1]]]\<rparr> (new_Polytope [])) = None"
  by code_simp

section \<open>Properties of the path decomposition\<close>

declare hops_loop.simps [simp del]

lemma hop_loop_result:
  "hop_loop sp target ops cov st = Inr (r, n) \<Longrightarrow>
     Suc (length (operations_remaining r)) = length ops \<and>
     fst (hop r) = ancestor r \<and> snd (snd (hop r)) = target \<and>
     (\<exists>anc\<in>set cov. mset (operations anc) = mset ops \<and> operations anc \<noteq> [] \<and>
        fst (snd (hop r)) = last (operations anc) \<and>
        operations_remaining r = butlast (operations anc))"
proof (induction cov arbitrary: st)
  case Nil
  then show ?case by (cases st) simp
next
  case (Cons anc rest)
  obtain bp k where st: "st = (bp, k)" by (cases st)
  show ?case
  proof (cases "mset (operations anc) = mset ops")
    case False
    with Cons st show ?thesis by simp
  next
    case True
    then have len: "length (operations anc) = length ops"
      by (metis size_mset)
    have pos: "Suc (length ops - Suc 0) = length ops" if "operations anc \<noteq> []"
      using that len by (cases "operations anc") auto
    from Cons.prems True st Cons.IH len pos show ?thesis
      by (auto simp: bindE_def Let_def split: sum.splits option.splits if_splits)
  qed
qed

lemma hop_result:
  "single_unordered_decomposition_hop sp calls target ops scs = Inr (r, n) \<Longrightarrow>
     Suc (length (operations_remaining r)) = length ops \<and>
     fst (hop r) = ancestor r \<and> snd (snd (hop r)) = target"
  unfolding single_unordered_decomposition_hop_def by (drule hop_loop_result) simp

lemma hops_loop_length:
  "hops_loop sp scs target ops decomposition calls = Inr (d, n) \<Longrightarrow>
     length d = length decomposition + length ops"
proof (induction sp scs target ops decomposition calls rule: hops_loop.induct)
  case (1 sp scs target ops decomposition calls)
  show ?case
  proof (cases "0 < length ops")
    case False
    with "1.prems" show ?thesis by (simp add: hops_loop.simps)
  next
    case True
    with "1.prems" obtain r calls' where
      h: "single_unordered_decomposition_hop sp calls target ops scs = Inr (r, calls')" and
      rest: "hops_loop sp scs (ancestor r) (operations_remaining r) (hop r # decomposition) calls'
               = Inr (d, n)"
      by (subst (asm) hops_loop.simps) (auto split: sum.splits)
    from "1.IH" [OF True h refl rest] hop_result [OF h] show ?thesis by simp
  qed
qed

lemma chained_nth:
  "chained d \<longleftrightarrow> (\<forall>i. Suc i < length d \<longrightarrow> snd (snd (d ! i)) = fst (d ! Suc i))"
proof (induction d rule: chained.induct)
  case (3 h1 h2 hs)
  show ?case
  proof
    assume c: "chained (h1 # h2 # hs)"
    show "\<forall>i. Suc i < length (h1 # h2 # hs) \<longrightarrow>
            snd (snd ((h1 # h2 # hs) ! i)) = fst ((h1 # h2 # hs) ! Suc i)"
    proof (intro allI impI)
      fix i assume "Suc i < length (h1 # h2 # hs)"
      with c 3 show "snd (snd ((h1 # h2 # hs) ! i)) = fst ((h1 # h2 # hs) ! Suc i)"
        by (cases i) auto
    qed
  next
    assume a: "\<forall>i. Suc i < length (h1 # h2 # hs) \<longrightarrow>
            snd (snd ((h1 # h2 # hs) ! i)) = fst ((h1 # h2 # hs) ! Suc i)"
    from a [rule_format, of 0] have "snd (snd h1) = fst h2" by simp
    moreover have "\<forall>i. Suc i < length (h2 # hs) \<longrightarrow>
            snd (snd ((h2 # hs) ! i)) = fst ((h2 # hs) ! Suc i)"
      using a [rule_format, of "Suc i" for i] by auto
    ultimately show "chained (h1 # h2 # hs)" using 3 by simp
  qed
qed simp_all

lemma hops_loop_chain:
  "hops_loop sp scs target ops decomposition calls = Inr (d, n) \<Longrightarrow>
   chained decomposition \<Longrightarrow> (decomposition \<noteq> [] \<Longrightarrow> fst (hd decomposition) = target) \<Longrightarrow>
     chained d \<and> (\<exists>pre. d = pre @ decomposition) \<and>
     (decomposition = [] \<longrightarrow> d \<noteq> [] \<longrightarrow> snd (snd (last d)) = target)"
proof (induction sp scs target ops decomposition calls rule: hops_loop.induct)
  case (1 sp scs target ops decomposition calls)
  show ?case
  proof (cases "0 < length ops")
    case False
    with "1.prems" show ?thesis by (simp add: hops_loop.simps)
  next
    case True
    with "1.prems"(1) obtain r calls' where
      h: "single_unordered_decomposition_hop sp calls target ops scs = Inr (r, calls')" and
      rest: "hops_loop sp scs (ancestor r) (operations_remaining r) (hop r # decomposition) calls'
               = Inr (d, n)"
      by (subst (asm) hops_loop.simps) (auto split: sum.splits)
    from hop_result [OF h] have shape: "fst (hop r) = ancestor r" "snd (snd (hop r)) = target"
      by simp_all
    have ch: "chained (hop r # decomposition)"
      using "1.prems"(2,3) shape by (cases decomposition) auto
    have hd: "fst (hd (hop r # decomposition)) = ancestor r"
      using shape by simp
    from "1.IH" [OF True h refl rest ch hd]
    obtain pre where d: "chained d" "d = pre @ hop r # decomposition" by auto
    have "snd (snd (last d)) = target" if "decomposition = []"
      using that d shape by simp
    with d show ?thesis by auto
  qed
qed

lemma best_loop_invariant:
  "best_loop sp target cov (w, b) = res \<Longrightarrow>
   (case w of None \<Rightarrow> b = None
    | Some p \<Rightarrow> b = Some (cost p) \<and> polyhedron_has_element sp p target \<and>
        (\<forall>q\<in>S. polyhedron_has_element sp q target \<longrightarrow> cost p \<le> cost q)) \<Longrightarrow>
   (w = None \<Longrightarrow> \<forall>q\<in>S. \<not> polyhedron_has_element sp q target) \<Longrightarrow>
   (case res of
      None \<Rightarrow> \<forall>q\<in>S \<union> set cov. \<not> polyhedron_has_element sp q target
    | Some p \<Rightarrow> (p \<in> set cov \<or> w = Some p) \<and> polyhedron_has_element sp p target \<and>
        (\<forall>q\<in>S \<union> set cov. polyhedron_has_element sp q target \<longrightarrow> cost p \<le> cost q))"
proof (induction cov arbitrary: w b S)
  case Nil
  then show ?case by (auto split: option.splits)
next
  case (Cons polytope rest)
  show ?case
  proof (cases "(case b of None \<Rightarrow> True | Some c \<Rightarrow> cost polytope < c) \<and>
                polyhedron_has_element sp polytope target")
    case True
    with Cons.prems(1) have run: "best_loop sp target rest (Some polytope, Some (cost polytope)) = res"
      by simp
    have inv: "case Some polytope of None \<Rightarrow> Some (cost polytope) = None
      | Some p \<Rightarrow> Some (cost polytope) = Some (cost p) \<and> polyhedron_has_element sp p target \<and>
          (\<forall>q\<in>insert polytope S. polyhedron_has_element sp q target \<longrightarrow> cost p \<le> cost q)"
      using True Cons.prems(2,3) by (cases w; cases b) (auto split: option.splits)
    from Cons.IH [OF run inv] show ?thesis
      by (auto split: option.splits)
  next
    case False
    with Cons.prems(1) have run: "best_loop sp target rest (w, b) = res"
      by auto
    have inv: "case w of None \<Rightarrow> b = None
      | Some p \<Rightarrow> b = Some (cost p) \<and> polyhedron_has_element sp p target \<and>
          (\<forall>q\<in>insert polytope S. polyhedron_has_element sp q target \<longrightarrow> cost p \<le> cost q)"
      using False Cons.prems(2,3) by (cases w; cases b) (auto split: option.splits)
    have none: "w = None \<Longrightarrow> \<forall>q\<in>insert polytope S. \<not> polyhedron_has_element sp q target"
      using False Cons.prems(2,3) by (cases b) (auto split: option.splits)
    from Cons.IH [OF run inv none] show ?thesis
      by (auto split: option.splits)
  qed
qed

lemma best_loop_start:
  "case best_loop sp target cov (None, None) of
      None \<Rightarrow> \<forall>q\<in>set cov. \<not> polyhedron_has_element sp q target
    | Some p \<Rightarrow> p \<in> set cov \<and> polyhedron_has_element sp p target \<and>
        (\<forall>q\<in>set cov. polyhedron_has_element sp q target \<longrightarrow> cost p \<le> cost q)"
  using best_loop_invariant [where sp = sp and target = target and cov = cov and w = None
           and b = None and S = "{}", OF refl]
  by (auto split: option.splits)

text \<open>
  C4. When no entry of \<open>coverage_set\<close> contains the target, the decomposition raises
  the error "not contained in coverage set" and returns nothing. Otherwise the entry
  it works from is an entry of \<open>coverage_set\<close> that contains the target and whose cost
  is at most the cost of every entry containing the target, and the result is that of
  the hop loop started from the operations of this entry.
\<close>

theorem decompose_selects_minimum_cost:
  "((\<forall>p\<in>set coverage_set. \<not> polyhedron_has_element sp p target) \<longrightarrow>
      scipy_unordered_decomposition_hops sp calls coverage_set scs target
        = Inl NotInCoverageSet) \<and>
   ((\<exists>p\<in>set coverage_set. polyhedron_has_element sp p target) \<longrightarrow>
      (\<exists>wp. best_loop sp target coverage_set (None, None) = Some wp \<and>
            wp \<in> set coverage_set \<and> polyhedron_has_element sp wp target \<and>
            (\<forall>q\<in>set coverage_set. polyhedron_has_element sp q target \<longrightarrow> cost wp \<le> cost q) \<and>
            scipy_unordered_decomposition_hops sp calls coverage_set scs target
              = hops_loop sp scs target (operations wp) [] calls))"
  using best_loop_start [where sp = sp and target = target and cov = coverage_set]
  by (cases "best_loop sp target coverage_set (None, None)")
     (auto simp: scipy_unordered_decomposition_hops_def)

theorem decompose_selects_minimum_cost_witness:
  "scipy_unordered_decomposition_hops example_scipy 0 example_coverage_set
      example_scipy_coverage_set [5, 0, 0] = Inl NotInCoverageSet \<and>
   (\<exists>wp. best_loop example_scipy [1 / 2, 0, 0] example_coverage_set (None, None) = Some wp \<and>
         wp \<in> set example_coverage_set \<and>
         polyhedron_has_element example_scipy wp [1 / 2, 0, 0] \<and>
         operations wp = [''op1''] \<and> cost wp = 1)"
proof -
  have out: "\<forall>p\<in>set example_coverage_set. \<not> polyhedron_has_element example_scipy p [5, 0, 0]"
    by code_simp
  have inside: "\<exists>p\<in>set example_coverage_set. polyhedron_has_element example_scipy p [1 / 2, 0, 0]"
    by code_simp
  have sel: "best_loop example_scipy [1 / 2, 0, 0] example_coverage_set (None, None)
               = Some (example_coverage_set ! 1)"
    by code_simp
  have ops: "operations (example_coverage_set ! 1) = [''op1'']" "cost (example_coverage_set ! 1) = 1"
    by code_simp+
  from decompose_selects_minimum_cost
         [where coverage_set = example_coverage_set and sp = example_scipy
            and target = "[5, 0, 0]" and calls = 0 and scs = example_scipy_coverage_set] out
  have a: "scipy_unordered_decomposition_hops example_scipy 0 example_coverage_set
      example_scipy_coverage_set [5, 0, 0] = Inl NotInCoverageSet"
    by blast
  from decompose_selects_minimum_cost
         [where coverage_set = example_coverage_set and sp = example_scipy
            and target = "[1 / 2, 0, 0]" and calls = 0 and scs = example_scipy_coverage_set]
       inside
  obtain wp where "best_loop example_scipy [1 / 2, 0, 0] example_coverage_set (None, None) = Some wp"
      "wp \<in> set example_coverage_set" "polyhedron_has_element example_scipy wp [1 / 2, 0, 0]"
    by blast
  with sel ops a show ?thesis by auto
qed

text \<open>
  C5. Every decomposition returned is a chain: the target of each triple is the source
  of the next, and the target of the last triple is the target that was asked for.
\<close>

theorem decomposition_is_chain:
  "scipy_unordered_decomposition_hops sp calls coverage_set scs target = Inr (d, calls') \<Longrightarrow>
     (\<forall>i. Suc i < length d \<longrightarrow> snd (snd (d ! i)) = fst (d ! Suc i)) \<and>
     (d \<noteq> [] \<longrightarrow> snd (snd (last d)) = target)"
proof -
  assume run: "scipy_unordered_decomposition_hops sp calls coverage_set scs target = Inr (d, calls')"
  then obtain wp :: "'a CircuitPolytopeData"
    where "hops_loop sp scs target (operations wp) [] calls = Inr (d, calls')"
    by (auto simp: scipy_unordered_decomposition_hops_def split: option.splits)
  from hops_loop_chain [OF this] have "chained d" "d \<noteq> [] \<longrightarrow> snd (snd (last d)) = target"
    by simp_all
  then show ?thesis by (simp add: chained_nth)
qed

theorem decomposition_is_chain_witness:
  "scipy_unordered_decomposition_hops example_scipy 0 example_coverage_set
      example_scipy_coverage_set [3 / 2, 0, 0]
     = Inr ([([0, 0, 0], ''op1'', [1, 0, 0]), ([1, 0, 0], ''op2'', [3 / 2, 0, 0])], 2) \<and>
   snd (snd (last [([0, 0, 0], ''op1'', [1, 0, 0]), ([1, 0, 0], ''op2'', [3 / 2 :: rat, 0, 0])]))
     = [3 / 2, 0, 0]"
proof -
  have run: "scipy_unordered_decomposition_hops example_scipy 0 example_coverage_set
      example_scipy_coverage_set [3 / 2, 0, 0]
     = Inr ([([0, 0, 0], ''op1'', [1, 0, 0]), ([1, 0, 0], ''op2'', [3 / 2, 0, 0])], 2)"
    by code_simp
  from decomposition_is_chain [OF run] run show ?thesis by simp
qed



text \<open>
  With two matching ancestors, the second search is made in the components of both.
\<close>

lemma hop_loop_two_matching:
  assumes "mset (operations a1) = mset ops" "mset (operations a2) = mset ops"
      and "mapE (backsolution_component target) (convex_subpolytopes a1) = Inr cs1"
      and "mapE (backsolution_component target) (convex_subpolytopes a2) = Inr cs2"
      and "manual_get_random_vertex sp calls \<lparr>convex_subpolytopes = cs1\<rparr> = None"
      and "operations a2 \<noteq> []"
  shows "single_unordered_decomposition_hop sp calls target ops [a1, a2] =
           (case manual_get_random_vertex sp (Suc calls) \<lparr>convex_subpolytopes = cs1 @ cs2\<rparr> of
              Some solution \<Rightarrow>
                Inr (\<lparr>hop = (solution, last (operations a2), target), ancestor = solution,
                      operations_remaining = butlast (operations a2)\<rparr>, Suc (Suc calls))
            | None \<Rightarrow> Inl NoBacksolution)"
  using assms
  by (simp add: single_unordered_decomposition_hop_def Let_def split: option.splits)

text \<open>
  C2. The backsolution polytope is created once, before the loop over the ancestors,
  and every matching ancestor appends its components to it: from the second matching
  ancestor on, the region searched holds the components of the earlier ones too. Below,
  the working operations are \<open>a, b\<close>; the first ancestor (operations \<open>a, b\<close>, source
  \<open>(0, 0, 0)\<close>) is searched by the call that fails; the second (operations \<open>b, a\<close>,
  source \<open>(1, 0, 0)\<close>) is searched together with the first, and the vertex returned,
  \<open>(0, 0, 0)\<close>, is a vertex of the first ancestor's region, paired with the last
  operation of the second. Searching the second ancestor's components alone gives
  \<open>(1, 0, 0)\<close>; the point \<open>(0, 0, 0)\<close> is not in that region.
\<close>

theorem hop_region_accumulates:
  "single_unordered_decomposition_hop flaky_scipy 0 [5, 0, 0] [''a'', ''b'']
      two_orders_scipy_coverage_set
     = Inr (\<lparr>hop = ([0, 0, 0], ''a'', [5, 0, 0]), ancestor = [0, 0, 0],
             operations_remaining = [''b'']\<rparr>, 2) \<and>
   hop_loop_per_ancestor flaky_scipy [5, 0, 0] [''a'', ''b''] two_orders_scipy_coverage_set 0
     = Inr (\<lparr>hop = ([1, 0, 0], ''a'', [5, 0, 0]), ancestor = [1, 0, 0],
             operations_remaining = [''b'']\<rparr>, 2) \<and>
   mapE (backsolution_component [5, 0, 0])
      (convex_subpolytopes (two_orders_scipy_coverage_set ! 1))
     = Inr [\<lparr>inequalities = [], equalities = [[- 1, 1, 0, 0], [0, 0, 1, 0], [0, 0, 0, 1]]\<rparr>] \<and>
   feasible_at [0, 0, 0]
      \<lparr>inequalities = [], equalities = [[- 1, 1, 0, 0], [0, 0, 1, 0], [0, 0, 0, 1]]\<rparr> = False \<and>
   operations (two_orders_scipy_coverage_set ! 1) = [''b'', ''a'']"
  by code_simp

end
